theory Spec2Isabelle
  imports Complex_Main "HOL-Library.Finite_Map" "HOL-Library.Char_ord" "HOL-Library.Sublist"
begin

unbundle bit_operations_syntax

section \<open>go-libconfig: lexer, parser, value model and path lookup\<close>

text \<open>
  A shallow embedding of the Go package \<^verbatim>\<open>libconfig\<close>. Go strings are byte
  sequences, modelled as \<^typ>\<open>string\<close> (a list of 8-bit characters). The lexer reads its
  input byte by byte (\<^verbatim>\<open>rune(l.input[l.pos])\<close>), so its current rune is always in
  the range 0..255 and is modelled as a \<^typ>\<open>char\<close>. Line, column and position counters
  are integers; they only count up from 0 or 1, far from the end of their range, and an
  index into a list is read with \<^term>\<open>nat\<close>. A Go \<^verbatim>\<open>int64\<close> is an
  \<^typ>\<open>int\<close> that the code keeps inside the 64-bit range; the platform dependent Go
  \<^verbatim>\<open>int\<close> is an \<^typ>\<open>int\<close> together with the platform's word size, and the one
  narrowing conversion of the code, \<^verbatim>\<open>int(val)\<close>, is written out.
\<close>

subsection \<open>Errors\<close>

text \<open>
  Go errors are values built by \<^verbatim>\<open>errors.New\<close> and wrapped by
  \<^verbatim>\<open>fmt.Errorf(format, args..., err)\<close> with a final \<^verbatim>\<open>%w\<close>. The format string
  and the arguments are kept, so every error of the model is the error of one place in the
  source. \<^verbatim>\<open>strconv.NumError\<close> and the errors of the operating system are wrappers too.
\<close>

datatype TokenType =
    TokenEOF
  | TokenIdentifier
  | TokenString
  | TokenInteger
  | TokenFloat
  | TokenBoolean
  | TokenAssign
  | TokenSemicolon
  | TokenComma
  | TokenLeftBrace
  | TokenRightBrace
  | TokenLeftBracket
  | TokenRightBracket
  | TokenLeftParen
  | TokenRightParen
  | TokenInclude
  | TokenError

datatype ValueType =
    TypeInt
  | TypeInt64
  | TypeFloat
  | TypeBool
  | TypeString
  | TypeArray
  | TypeGroup
  | TypeList

datatype Arg =
    ArgS string
  | ArgD int
  | ArgTok TokenType
  | ArgVal ValueType
  | ArgList "string list"

datatype Error =
    New string
  | Errorf string "Arg list" Error
  | NumError string string Error
  | PathError string string

definition ErrCannotLookupInNonGroup :: Error where
  "ErrCannotLookupInNonGroup = New ''cannot lookup in non-group value''"

definition ErrSettingNotFound :: Error where
  "ErrSettingNotFound = New ''setting not found''"

definition ErrNotInteger :: Error where
  "ErrNotInteger = New ''value is not an integer''"

definition ErrIntegerOutOfRange :: Error where
  "ErrIntegerOutOfRange = New ''integer value out of range''"

definition ErrUnexpectedToken :: Error where
  "ErrUnexpectedToken = New ''unexpected token''"

definition ErrExpectedToken :: Error where
  "ErrExpectedToken = New ''expected token''"

definition ErrIncludeDepthExceeded :: Error where
  "ErrIncludeDepthExceeded = New ''include depth limit exceeded''"

definition ErrExpectedStringAfterInclude :: Error where
  "ErrExpectedStringAfterInclude = New ''expected string after @include''"

definition ErrIncludeFileNotFound :: Error where
  "ErrIncludeFileNotFound = New ''include file not found''"

definition ErrExpectedIdentifier :: Error where
  "ErrExpectedIdentifier = New ''expected identifier''"

definition ErrExpectedAssignment :: Error where
  "ErrExpectedAssignment = New ''expected assignment operator''"

definition ErrArrayTypeMismatch :: Error where
  "ErrArrayTypeMismatch = New ''array elements must have the same type''"

definition ErrSyntax :: Error where
  "ErrSyntax = New ''invalid syntax''"

definition ErrRange :: Error where
  "ErrRange = New ''value out of range''"

text \<open>\<^verbatim>\<open>errors.Is\<close>: the error itself or one it wraps, at any depth.\<close>

fun errors_Is :: "Error \<Rightarrow> Error \<Rightarrow> bool" where
  "errors_Is (New m) target = (New m = target)"
| "errors_Is (Errorf f as e) target = (Errorf f as e = target \<or> errors_Is e target)"
| "errors_Is (NumError fn num e) target = (NumError fn num e = target \<or> errors_Is e target)"
| "errors_Is (PathError op path) target = (PathError op path = target)"

subsection \<open>Tokens\<close>

record Token =
  Value :: string
  Type :: TokenType
  Line :: int
  Column :: int

subsection \<open>Values and configurations\<close>

text \<open>
  The struct \<^verbatim>\<open>Value\<close> has one field for each kind and the tag \<^verbatim>\<open>Type\<close>; all the
  fields are kept. A nil slice is the empty list and a nil map the empty map (the code never
  tells them apart: a lookup in a nil map finds nothing, and \<^verbatim>\<open>mergeConfig\<close> makes the
  map before it writes). A \<^verbatim>\<open>float64\<close> that the parser stores is finite and is kept as
  the real number it denotes.
\<close>

datatype Value = MkValue
  (ArrayVal: "Value list")
  (ListVal: "Value list")
  (StrVal: string)
  (GroupVal: "(string, Value) fmap")
  (IntVal: int)
  (Int64Val: int)
  (FloatVal: real)
  (Type: ValueType)
  (BoolVal: bool)

text \<open>The zero value \<^verbatim>\<open>Value{}\<close>.\<close>

definition Value_zero :: Value where
  "Value_zero = MkValue [] [] [] fmempty 0 0 0 TypeInt False"

record Config =
  Root :: Value

definition NewIntValue :: "int \<Rightarrow> Value" where
  "NewIntValue val = MkValue [] [] [] fmempty val 0 0 TypeInt False"

definition NewInt64Value :: "int \<Rightarrow> Value" where
  "NewInt64Value val = MkValue [] [] [] fmempty 0 val 0 TypeInt64 False"

definition NewFloatValue :: "real \<Rightarrow> Value" where
  "NewFloatValue val = MkValue [] [] [] fmempty 0 0 val TypeFloat False"

definition NewBoolValue :: "bool \<Rightarrow> Value" where
  "NewBoolValue val = MkValue [] [] [] fmempty 0 0 0 TypeBool val"

definition NewStringValue :: "string \<Rightarrow> Value" where
  "NewStringValue val = MkValue [] [] val fmempty 0 0 0 TypeString False"

definition NewArrayValue :: "Value list \<Rightarrow> Value" where
  "NewArrayValue vals = MkValue vals [] [] fmempty 0 0 0 TypeArray False"

definition NewGroupValue :: "(string, Value) fmap \<Rightarrow> Value" where
  "NewGroupValue vals = MkValue [] [] [] vals 0 0 0 TypeGroup False"

definition NewListValue :: "Value list \<Rightarrow> Value" where
  "NewListValue vals = MkValue [] vals [] fmempty 0 0 0 TypeList False"

definition NewConfig :: Config where
  "NewConfig = \<lparr>Root = MkValue [] [] [] fmempty 0 0 0 TypeGroup False\<rparr>"

subsection \<open>The platform's integers\<close>

text \<open>
  The size of Go's \<^verbatim>\<open>int\<close> and \<^verbatim>\<open>uint\<close> is 32 or 64 bits, by platform; it is the
  parameter \<open>IntSize\<close> of the functions that use it. \<^verbatim>\<open>int64(^uint(0)>>1)\<close> is the
  largest \<^verbatim>\<open>int\<close>, \<^verbatim>\<open>int64(-1<<(64-1))\<close> the smallest \<^verbatim>\<open>int64\<close>, and
  \<^verbatim>\<open>int(val)\<close> keeps the low \<open>IntSize\<close> bits of \<open>val\<close>, read as a signed number.
\<close>

definition maxInt :: "nat \<Rightarrow> int" where
  "maxInt IntSize = (2 ^ IntSize - 1) div 2"

definition minInt64 :: int where
  "minInt64 = - (2 ^ (64 - 1))"

definition to_int :: "nat \<Rightarrow> int \<Rightarrow> int" where
  "to_int IntSize val = (val + 2 ^ (IntSize - 1)) mod 2 ^ IntSize - 2 ^ (IntSize - 1)"

subsection \<open>Standard library: strings and strconv\<close>

text \<open>
  The functions of Go's standard library that the code calls, from their documentation.
  \<^verbatim>\<open>strings.Split\<close> is only called with the separator \<^verbatim>\<open>"."\<close>, one byte.
\<close>

fun strings_Split :: "string \<Rightarrow> char \<Rightarrow> string list" where
  "strings_Split [] sep = [[]]"
| "strings_Split (c # cs) sep =
     (if c = sep then [] # strings_Split cs sep
      else (case strings_Split cs sep of
              [] \<Rightarrow> [[c]]
            | p # ps \<Rightarrow> (c # p) # ps))"

definition strings_HasPrefix :: "string \<Rightarrow> string \<Rightarrow> bool" where
  "strings_HasPrefix s pre = (take (length pre) s = pre)"

definition strings_HasSuffix :: "string \<Rightarrow> string \<Rightarrow> bool" where
  "strings_HasSuffix s suf =
     (length suf \<le> length s \<and> drop (length s - length suf) s = suf)"

text \<open>
  \<^verbatim>\<open>strings.TrimSpace\<close> removes the leading and trailing white space of Unicode, here in
  UTF-8: the ASCII characters tab, line feed, vertical tab, form feed, carriage return and
  space, U+0085, U+00A0, U+1680, U+2000 to U+200A, U+2028, U+2029, U+202F, U+205F, U+3000.
  \<open>dropSpace\<close> removes them at the front; \<open>dropSpaceRev\<close> does the same on the reversed
  string, where the bytes of each character come last byte first.
\<close>

definition asciiSpace :: "char \<Rightarrow> bool" where
  "asciiSpace c = (c = CHR 0x09 \<or> c = CHR 0x0A \<or> c = CHR 0x0B \<or> c = CHR 0x0C
      \<or> c = CHR 0x0D \<or> c = CHR 0x20)"

definition thirdByteE280 :: "char \<Rightarrow> bool" where
  "thirdByteE280 c = ((CHR 0x80 \<le> c \<and> c \<le> CHR 0x8A) \<or> c = CHR 0xA8 \<or> c = CHR 0xA9
      \<or> c = CHR 0xAF)"

fun dropSpace :: "string \<Rightarrow> string" where
  "dropSpace [] = []"
| "dropSpace (c # cs) =
     (if asciiSpace c then dropSpace cs
      else (case (c # cs) of
          a # b # rest \<Rightarrow>
            if a = CHR 0xC2 \<and> (b = CHR 0x85 \<or> b = CHR 0xA0) then dropSpace rest
            else (case rest of
                d # rest' \<Rightarrow>
                  if (a = CHR 0xE1 \<and> b = CHR 0x9A \<and> d = CHR 0x80)
                     \<or> (a = CHR 0xE2 \<and> b = CHR 0x80 \<and> thirdByteE280 d)
                     \<or> (a = CHR 0xE2 \<and> b = CHR 0x81 \<and> d = CHR 0x9F)
                     \<or> (a = CHR 0xE3 \<and> b = CHR 0x80 \<and> d = CHR 0x80)
                  then dropSpace rest' else c # cs
              | [] \<Rightarrow> c # cs)
        | _ \<Rightarrow> c # cs))"

fun dropSpaceRev :: "string \<Rightarrow> string" where
  "dropSpaceRev [] = []"
| "dropSpaceRev (c # cs) =
     (if asciiSpace c then dropSpaceRev cs
      else (case (c # cs) of
          b # a # rest \<Rightarrow>
            if a = CHR 0xC2 \<and> (b = CHR 0x85 \<or> b = CHR 0xA0) then dropSpaceRev rest
            else (case rest of
                a' # rest' \<Rightarrow>
                  if (a' = CHR 0xE1 \<and> a = CHR 0x9A \<and> b = CHR 0x80)
                     \<or> (a' = CHR 0xE2 \<and> a = CHR 0x80 \<and> thirdByteE280 b)
                     \<or> (a' = CHR 0xE2 \<and> a = CHR 0x81 \<and> b = CHR 0x9F)
                     \<or> (a' = CHR 0xE3 \<and> a = CHR 0x80 \<and> b = CHR 0x80)
                  then dropSpaceRev rest' else c # cs
              | [] \<Rightarrow> c # cs)
        | _ \<Rightarrow> c # cs))"

definition strings_TrimSpace :: "string \<Rightarrow> string" where
  "strings_TrimSpace s = rev (dropSpaceRev (rev (dropSpace s)))"

text \<open>
  \<^verbatim>\<open>strconv.ParseUint(s, base, bitSize)\<close> for a base from 2 to 36 given by the caller
  (no prefix and no underscore is accepted then) and a bit size from 1 to 64. The loop runs
  over the bytes with the number read so far, a \<^verbatim>\<open>uint64\<close>; \<open>cutoff\<close> is the least
  number whose product with the base overflows. The result is the kind of error
  (\<^verbatim>\<open>ErrSyntax\<close> or \<^verbatim>\<open>ErrRange\<close>) or the number. \<^verbatim>\<open>lower(c)\<close> is
  \<^verbatim>\<open>c | ('x' - 'X')\<close>, a byte, here as a number.
\<close>

definition lower :: "char \<Rightarrow> nat" where
  "lower c = of_char c OR 0x20"

fun ParseUint_loop :: "nat \<Rightarrow> nat \<Rightarrow> nat \<Rightarrow> string \<Rightarrow> Error + nat" where
  "ParseUint_loop base maxVal n [] = Inr n"
| "ParseUint_loop base maxVal n (c # cs) =
     (if CHR ''0'' \<le> c \<and> c \<le> CHR ''9''
         \<or> of_char CHR ''a'' \<le> lower c \<and> lower c \<le> of_char CHR ''z'' then
        (let d = (if CHR ''0'' \<le> c \<and> c \<le> CHR ''9'' then of_char c - of_char CHR ''0''
                  else lower c - of_char CHR ''a'' + 10) in
         if d \<ge> base then Inl ErrSyntax
         else if n \<ge> (2 ^ 64 - 1) div base + 1 then Inl ErrRange
         else (let n' = n * base; n1 = (n' + d) mod 2 ^ 64 in
               if n1 < n' \<or> n1 > maxVal then Inl ErrRange
               else ParseUint_loop base maxVal n1 cs))
      else Inl ErrSyntax)"

definition strconv_ParseUint :: "string \<Rightarrow> nat \<Rightarrow> nat \<Rightarrow> Error + nat" where
  "strconv_ParseUint s base bitSize =
     (if s = [] then Inl ErrSyntax
      else ParseUint_loop base (2 ^ bitSize - 1) 0 s)"

text \<open>
  \<^verbatim>\<open>strconv.ParseInt(s, base, bitSize)\<close>: an optional sign, then \<^verbatim>\<open>ParseUint\<close>,
  then the range of a signed number of \<open>bitSize\<close> bits. Every error is a
  \<^verbatim>\<open>*NumError\<close> with the function's name and the whole text.
\<close>

definition strconv_ParseInt :: "string \<Rightarrow> nat \<Rightarrow> nat \<Rightarrow> Error + int" where
  "strconv_ParseInt s base bitSize =
     (if s = [] then Inl (NumError ''ParseInt'' s ErrSyntax)
      else
        (let neg = (hd s = CHR ''-'');
             s' = (if hd s = CHR ''+'' \<or> hd s = CHR ''-'' then tl s else s);
             cutoff = (2 :: nat) ^ (bitSize - 1)
         in case strconv_ParseUint s' base bitSize of
              Inl e \<Rightarrow>
                (if e \<noteq> ErrRange then Inl (NumError ''ParseInt'' s e)
                 else Inl (NumError ''ParseInt'' s ErrRange))
            | Inr un \<Rightarrow>
                if \<not> neg \<and> un \<ge> cutoff then Inl (NumError ''ParseInt'' s ErrRange)
                else if neg \<and> un > cutoff then Inl (NumError ''ParseInt'' s ErrRange)
                else Inr (if neg then - int un else int un)))"

subsection \<open>Lookup by path\<close>

fun Lookup_loop :: "Value \<Rightarrow> string list \<Rightarrow> Error + Value" where
  "Lookup_loop current [] = Inr current"
| "Lookup_loop current (part # parts) =
     (if part = [] then Lookup_loop current parts
      else if Type current \<noteq> TypeGroup
        then Inl (Errorf ''cannot lookup '%s': %w'' [ArgS part] ErrCannotLookupInNonGroup)
      else (case fmlookup (GroupVal current) part of
              None \<Rightarrow> Inl (Errorf ''setting '%s': %w'' [ArgS part] ErrSettingNotFound)
            | Some val \<Rightarrow> Lookup_loop val parts))"

definition Lookup :: "Config \<Rightarrow> string \<Rightarrow> Error + Value" where
  "Lookup c path = Lookup_loop (Root c) (strings_Split path CHR ''.'')"

definition LookupInt :: "nat \<Rightarrow> Config \<Rightarrow> string \<Rightarrow> Error + int" where
  "LookupInt IntSize c path =
     (case Lookup c path of
        Inl err \<Rightarrow> Inl err
      | Inr val \<Rightarrow>
          if Type val = TypeInt then Inr (IntVal val)
          else if Type val = TypeInt64 then
            (if Int64Val val > maxInt IntSize \<or> Int64Val val < minInt64
             then Inl (Errorf ''int64 value %d: %w'' [ArgD (Int64Val val)] ErrIntegerOutOfRange)
             else Inr (to_int IntSize (Int64Val val)))
          else Inl (Errorf ''value at '%s': %w'' [ArgS path] ErrNotInteger))"

definition LookupInt64 :: "Config \<Rightarrow> string \<Rightarrow> Error + int" where
  "LookupInt64 c path =
     (case Lookup c path of
        Inl err \<Rightarrow> Inl err
      | Inr val \<Rightarrow>
          if Type val = TypeInt then Inr (IntVal val)
          else if Type val = TypeInt64 then Inr (Int64Val val)
          else Inl (Errorf ''value at '%s': %w'' [ArgS path] ErrNotInteger))"

subsection \<open>Standard library: unicode and UTF-8\<close>

text \<open>
  \<^verbatim>\<open>unicode.IsSpace\<close>, \<^verbatim>\<open>unicode.IsDigit\<close> and \<^verbatim>\<open>unicode.IsLetter\<close> on the
  runes 0..255 (Latin-1), the only ones the lexer has. \<^verbatim>\<open>WriteRune\<close> appends the UTF-8
  encoding of a code point, \<^verbatim>\<open>string(rune)\<close> is that encoding.
\<close>

definition unicode_IsSpace :: "char \<Rightarrow> bool" where
  "unicode_IsSpace c = (c = CHR 0x09 \<or> c = CHR 0x0A \<or> c = CHR 0x0B \<or> c = CHR 0x0C
      \<or> c = CHR 0x0D \<or> c = CHR 0x20 \<or> c = CHR 0x85 \<or> c = CHR 0xA0)"

definition unicode_IsDigit :: "char \<Rightarrow> bool" where
  "unicode_IsDigit c = (CHR ''0'' \<le> c \<and> c \<le> CHR ''9'')"

definition unicode_IsLetter :: "char \<Rightarrow> bool" where
  "unicode_IsLetter c = ((CHR ''A'' \<le> c \<and> c \<le> CHR ''Z'') \<or> (CHR ''a'' \<le> c \<and> c \<le> CHR ''z'')
      \<or> c = CHR 0xAA \<or> c = CHR 0xB5 \<or> c = CHR 0xBA
      \<or> (CHR 0xC0 \<le> c \<and> c \<le> CHR 0xD6) \<or> (CHR 0xD8 \<le> c \<and> c \<le> CHR 0xF6)
      \<or> CHR 0xF8 \<le> c)"

definition WriteRune :: "nat \<Rightarrow> string" where
  "WriteRune r =
     (if r < 0x80 then [char_of r]
      else if r < 0x800 then [char_of (0xC0 OR drop_bit 6 r), char_of (0x80 OR (r AND 0x3F))]
      else if r > 0x10FFFF \<or> (0xD800 \<le> r \<and> r \<le> 0xDFFF) then [CHR 0xEF, CHR 0xBF, CHR 0xBD]
      else if r < 0x10000 then
        [char_of (0xE0 OR drop_bit 12 r), char_of (0x80 OR (drop_bit 6 r AND 0x3F)),
         char_of (0x80 OR (r AND 0x3F))]
      else
        [char_of (0xF0 OR drop_bit 18 r), char_of (0x80 OR (drop_bit 12 r AND 0x3F)),
         char_of (0x80 OR (drop_bit 6 r AND 0x3F)), char_of (0x80 OR (r AND 0x3F))])"

text \<open>
  \<^verbatim>\<open>strings.ToLower\<close> on the text of an identifier: the ASCII capitals become small
  letters. The other bytes of an identifier are the UTF-8 of U+0080 to U+00FF, whose lower
  case is never ASCII, and the lexer only compares the result with \<^verbatim>\<open>"true"\<close> and
  \<^verbatim>\<open>"false"\<close>; these bytes are left as they are.
\<close>

definition strings_ToLower :: "string \<Rightarrow> string" where
  "strings_ToLower s =
     map (\<lambda>c. if CHR ''A'' \<le> c \<and> c \<le> CHR ''Z'' then char_of (of_char c + (0x20 :: nat)) else c) s"

subsection \<open>Lexer\<close>

record Lexer =
  tokens :: "Token list"
  input :: string
  pos :: int
  line :: int
  column :: int
  tokenPos :: int
  current :: char

definition Lexer_advance :: "Lexer \<Rightarrow> Lexer" where
  "Lexer_advance l =
     (if pos l \<ge> int (length (input l)) - 1 then l\<lparr>current := CHR 0x00\<rparr>
      else
        (let l1 = (if current l = CHR 0x0A then l\<lparr>line := line l + 1, column := 1\<rparr>
                   else l\<lparr>column := column l + 1\<rparr>);
             l2 = l1\<lparr>pos := pos l1 + 1\<rparr>
         in l2\<lparr>current := input l2 ! nat (pos l2)\<rparr>))"

definition Lexer_peek :: "Lexer \<Rightarrow> char" where
  "Lexer_peek l =
     (if pos l + 1 \<ge> int (length (input l)) then CHR 0x00 else input l ! nat (pos l + 1))"

text \<open>
  What is left to read: it never grows under \<open>Lexer_advance\<close>, and shrinks when the current
  rune is not 0. Every loop of the lexer stops on the rune 0, so it is their measure.
\<close>

definition remaining :: "Lexer \<Rightarrow> nat" where
  "remaining l =
     2 * nat (int (length (input l)) - pos l) + (if current l = CHR 0x00 then 0 else 1)"

lemma remaining_advance_le: "remaining (Lexer_advance l) \<le> remaining l"
  by (auto simp: remaining_def Lexer_advance_def Let_def)

lemma remaining_advance_less:
  "current l \<noteq> CHR 0x00 \<Longrightarrow> remaining (Lexer_advance l) < remaining l"
  by (auto simp: remaining_def Lexer_advance_def Let_def)

lemma remaining_advance2_less:
  "current l \<noteq> CHR 0x00 \<Longrightarrow> remaining (Lexer_advance (Lexer_advance l)) < remaining l"
  by (rule le_less_trans [OF remaining_advance_le remaining_advance_less])

function skipWhitespace :: "Lexer \<Rightarrow> Lexer" where
  "skipWhitespace l =
     (if unicode_IsSpace (current l) then skipWhitespace (Lexer_advance l) else l)"
  by pat_completeness auto
termination
  by (relation "measure remaining")
     (auto simp: unicode_IsSpace_def intro!: remaining_advance_less)

declare skipWhitespace.simps [simp del]

text \<open>The loop of a \<^verbatim>\<open>//\<close> and of a \<^verbatim>\<open>#\<close> comment: to the end of the line.\<close>

function skipLine :: "Lexer \<Rightarrow> Lexer" where
  "skipLine l =
     (if current l \<noteq> CHR 0x0A \<and> current l \<noteq> CHR 0x00 then skipLine (Lexer_advance l) else l)"
  by pat_completeness auto
termination
  by (relation "measure remaining") (auto intro!: remaining_advance_less)

declare skipLine.simps [simp del]

text \<open>The loop of a \<^verbatim>\<open>/* */\<close> comment, after its first two characters.\<close>

function skipBlock :: "Lexer \<Rightarrow> Lexer" where
  "skipBlock l =
     (if current l \<noteq> CHR 0x00 then
        (if current l = CHR ''*'' \<and> Lexer_peek l = CHR ''/''
         then Lexer_advance (Lexer_advance l)
         else skipBlock (Lexer_advance l))
      else l)"
  by pat_completeness auto
termination
  by (relation "measure remaining") (auto intro!: remaining_advance_less)

declare skipBlock.simps [simp del]

definition skipComment :: "Lexer \<Rightarrow> bool \<times> Lexer" where
  "skipComment l =
     (if current l = CHR ''/'' then
        (let next = Lexer_peek l in
         if next = CHR ''/'' then (True, skipLine l)
         else if next = CHR ''*'' then (True, skipBlock (Lexer_advance (Lexer_advance l)))
         else (False, l))
      else if current l = CHR ''#'' then (True, skipLine l)
      else (False, l))"

text \<open>
  The loop of the escape \<^verbatim>\<open>\xNN\<close>: at most two hexadecimal digits, \<open>k\<close> of them still
  to read.
\<close>

definition isHexDigit :: "char \<Rightarrow> bool" where
  "isHexDigit c = ((CHR ''0'' \<le> c \<and> c \<le> CHR ''9'') \<or> (CHR ''a'' \<le> c \<and> c \<le> CHR ''f'')
      \<or> (CHR ''A'' \<le> c \<and> c \<le> CHR ''F''))"

fun readHex :: "nat \<Rightarrow> string \<Rightarrow> Lexer \<Rightarrow> string \<times> Lexer" where
  "readHex 0 hex l = (hex, l)"
| "readHex (Suc k) hex l =
     (if current l \<noteq> CHR 0x00 \<and> isHexDigit (current l)
      then readHex k (hex @ WriteRune (of_char (current l))) (Lexer_advance l)
      else (hex, l))"

lemma remaining_readHex: "remaining (snd (readHex k hex l)) \<le> remaining l"
proof (induction k arbitrary: hex l)
  case 0
  show ?case by simp
next
  case (Suc k)
  have "remaining (snd (readHex k (hex @ WriteRune (of_char (current l))) (Lexer_advance l)))
          \<le> remaining (Lexer_advance l)"
    by (rule Suc.IH)
  also have "\<dots> \<le> remaining l"
    by (rule remaining_advance_le)
  finally show ?case by simp
qed

definition hexEscape :: "string \<Rightarrow> string \<Rightarrow> string" where
  "hexEscape result hex =
     (if length hex = 2 then
        (case strconv_ParseInt hex 16 8 of
           Inr val \<Rightarrow> result @ WriteRune (nat val)
         | Inl err \<Rightarrow> result)
      else result)"

text \<open>The loop of \<^verbatim>\<open>readString\<close>, after the opening quote.\<close>

function readString_loop :: "string \<Rightarrow> Lexer \<Rightarrow> string \<times> Lexer" where
  "readString_loop result l =
     (if current l \<noteq> CHR 0x22 \<and> current l \<noteq> CHR 0x00 then
        (if current l = CHR 0x5C then
           (let l1 = Lexer_advance l; c = current l1 in
            if c = CHR ''n'' then readString_loop (result @ WriteRune 0x0A) (Lexer_advance l1)
            else if c = CHR ''r'' then readString_loop (result @ WriteRune 0x0D) (Lexer_advance l1)
            else if c = CHR ''t'' then readString_loop (result @ WriteRune 0x09) (Lexer_advance l1)
            else if c = CHR ''b'' then readString_loop (result @ WriteRune 0x08) (Lexer_advance l1)
            else if c = CHR ''f'' then readString_loop (result @ WriteRune 0x0C) (Lexer_advance l1)
            else if c = CHR ''a'' then readString_loop (result @ WriteRune 0x07) (Lexer_advance l1)
            else if c = CHR ''v'' then readString_loop (result @ WriteRune 0x0B) (Lexer_advance l1)
            else if c = CHR 0x5C then readString_loop (result @ WriteRune 0x5C) (Lexer_advance l1)
            else if c = CHR 0x22 then readString_loop (result @ WriteRune 0x22) (Lexer_advance l1)
            else if c = CHR ''x'' then
              readString_loop
                (hexEscape result (fst (readHex 2 [] (Lexer_advance l1))))
                (snd (readHex 2 [] (Lexer_advance l1)))
            else readString_loop (result @ WriteRune (of_char c)) (Lexer_advance l1))
         else readString_loop (result @ WriteRune (of_char (current l))) (Lexer_advance l))
      else (result, l))"
  by pat_completeness auto
termination
proof (relation "measure (\<lambda>(result, l). remaining l)", goal_cases)
  case 1
  show ?case by simp
next
  case (11 result l l1 c)
  have "remaining (snd (readHex 2 [] (Lexer_advance l1))) \<le> remaining (Lexer_advance l1)"
    by (rule remaining_readHex)
  also have "\<dots> \<le> remaining l1"
    by (rule remaining_advance_le)
  also have "\<dots> < remaining l"
    using 11 by (simp add: remaining_advance_less)
  finally show ?case by simp
qed (simp_all (no_asm_simp) add: remaining_advance_less remaining_advance2_less)

declare readString_loop.simps [simp del]

definition readString :: "Lexer \<Rightarrow> string \<times> Lexer" where
  "readString l =
     (case readString_loop [] (Lexer_advance l) of
        (result, l') \<Rightarrow>
          (result, if current l' = CHR 0x22 then Lexer_advance l' else l'))"

function readIdentifier_loop :: "string \<Rightarrow> Lexer \<Rightarrow> string \<times> Lexer" where
  "readIdentifier_loop result l =
     (if unicode_IsLetter (current l) \<or> unicode_IsDigit (current l)
         \<or> current l = CHR ''_'' \<or> current l = CHR ''-'' \<or> current l = CHR ''*''
      then readIdentifier_loop (result @ WriteRune (of_char (current l))) (Lexer_advance l)
      else (result, l))"
  by pat_completeness auto
termination
  by (relation "measure (\<lambda>(result, l). remaining l)")
     (auto simp: unicode_IsLetter_def unicode_IsDigit_def intro!: remaining_advance_less)

declare readIdentifier_loop.simps [simp del]

definition readIdentifier :: "Lexer \<Rightarrow> string \<times> Lexer" where
  "readIdentifier l = readIdentifier_loop [] l"

text \<open>The four digit loops of \<^verbatim>\<open>readNumber\<close>.\<close>

function readHexDigits :: "string \<Rightarrow> Lexer \<Rightarrow> string \<times> Lexer" where
  "readHexDigits result l =
     (if (CHR ''0'' \<le> current l \<and> current l \<le> CHR ''9'')
         \<or> (CHR ''a'' \<le> current l \<and> current l \<le> CHR ''f'')
         \<or> (CHR ''A'' \<le> current l \<and> current l \<le> CHR ''F'')
      then readHexDigits (result @ WriteRune (of_char (current l))) (Lexer_advance l)
      else (result, l))"
  by pat_completeness auto
termination
  by (relation "measure (\<lambda>(result, l). remaining l)")
     (auto intro!: remaining_advance_less)

declare readHexDigits.simps [simp del]

function readBinDigits :: "string \<Rightarrow> Lexer \<Rightarrow> string \<times> Lexer" where
  "readBinDigits result l =
     (if current l = CHR ''0'' \<or> current l = CHR ''1''
      then readBinDigits (result @ WriteRune (of_char (current l))) (Lexer_advance l)
      else (result, l))"
  by pat_completeness auto
termination
  by (relation "measure (\<lambda>(result, l). remaining l)")
     (auto intro!: remaining_advance_less)

declare readBinDigits.simps [simp del]

function readOctDigits :: "string \<Rightarrow> Lexer \<Rightarrow> string \<times> Lexer" where
  "readOctDigits result l =
     (if CHR ''0'' \<le> current l \<and> current l \<le> CHR ''7''
      then readOctDigits (result @ WriteRune (of_char (current l))) (Lexer_advance l)
      else (result, l))"
  by pat_completeness auto
termination
  by (relation "measure (\<lambda>(result, l). remaining l)")
     (auto intro!: remaining_advance_less)

declare readOctDigits.simps [simp del]

function readDigits :: "string \<Rightarrow> Lexer \<Rightarrow> string \<times> Lexer" where
  "readDigits result l =
     (if unicode_IsDigit (current l)
      then readDigits (result @ WriteRune (of_char (current l))) (Lexer_advance l)
      else (result, l))"
  by pat_completeness auto
termination
  by (relation "measure (\<lambda>(result, l). remaining l)")
     (auto simp: unicode_IsDigit_def intro!: remaining_advance_less)

declare readDigits.simps [simp del]

text \<open>
  \<^verbatim>\<open>readNumber\<close> in its four steps: the digits with their prefix, the decimal point, the
  exponent, the suffix. Each step gives the text read so far and the lexer.
\<close>

definition readNumber_prefix :: "Lexer \<Rightarrow> string \<times> Lexer" where
  "readNumber_prefix l =
     (if current l = CHR ''0'' then
        (let result = WriteRune (of_char (current l)); l1 = Lexer_advance l; c = current l1 in
         if c = CHR ''x'' \<or> c = CHR ''X'' then
           readHexDigits (result @ WriteRune (of_char c)) (Lexer_advance l1)
         else if c = CHR ''b'' \<or> c = CHR ''B'' then
           readBinDigits (result @ WriteRune (of_char c)) (Lexer_advance l1)
         else if c = CHR ''o'' \<or> c = CHR ''O'' \<or> c = CHR ''q'' \<or> c = CHR ''Q'' then
           readOctDigits (result @ WriteRune (of_char c)) (Lexer_advance l1)
         else readDigits result l1)
      else readDigits [] l)"

definition readNumber_point :: "string \<times> Lexer \<Rightarrow> (TokenType \<times> string) \<times> Lexer" where
  "readNumber_point rl =
     (case rl of (result, l) \<Rightarrow>
        if current l = CHR ''.'' \<and> unicode_IsDigit (Lexer_peek l) then
          (case readDigits (result @ WriteRune (of_char (current l))) (Lexer_advance l) of
             (result', l') \<Rightarrow> ((TokenFloat, result'), l'))
        else ((TokenInteger, result), l))"

definition readNumber_exponent ::
  "(TokenType \<times> string) \<times> Lexer \<Rightarrow> (TokenType \<times> string) \<times> Lexer" where
  "readNumber_exponent trl =
     (case trl of ((tokenType, result), l) \<Rightarrow>
        if current l = CHR ''e'' \<or> current l = CHR ''E'' then
          (let result1 = result @ WriteRune (of_char (current l)); l1 = Lexer_advance l in
           case (if current l1 = CHR ''+'' \<or> current l1 = CHR ''-''
                 then readDigits (result1 @ WriteRune (of_char (current l1))) (Lexer_advance l1)
                 else readDigits result1 l1) of
             (result', l') \<Rightarrow> ((TokenFloat, result'), l'))
        else ((tokenType, result), l))"

definition readNumber_suffix ::
  "(TokenType \<times> string) \<times> Lexer \<Rightarrow> (TokenType \<times> string) \<times> Lexer" where
  "readNumber_suffix trl =
     (case trl of ((tokenType, result), l) \<Rightarrow>
        if current l = CHR ''L'' \<or> current l = CHR ''l''
        then ((tokenType, result @ WriteRune (of_char (current l))), Lexer_advance l)
        else ((tokenType, result), l))"

definition readNumber :: "Lexer \<Rightarrow> (TokenType \<times> string) \<times> Lexer" where
  "readNumber l = readNumber_suffix (readNumber_exponent (readNumber_point (readNumber_prefix l)))"

text \<open>The switch of \<^verbatim>\<open>tokenize\<close>: one token from the current rune, which is not 0.\<close>

definition append_token :: "Lexer \<Rightarrow> string \<Rightarrow> TokenType \<Rightarrow> int \<Rightarrow> int \<Rightarrow> Lexer" where
  "append_token l v ty startLine startColumn =
     l\<lparr>tokens := tokens l @ [\<lparr>Value = v, Type = ty, Line = startLine, Column = startColumn\<rparr>]\<rparr>"

definition tokenize_switch :: "int \<Rightarrow> int \<Rightarrow> Lexer \<Rightarrow> Lexer" where
  "tokenize_switch startLine startColumn l =
     (let c = current l; text = WriteRune (of_char c) in
      if c = CHR ''='' \<or> c = CHR '':'' then
        Lexer_advance (append_token l text TokenAssign startLine startColumn)
      else if c = CHR '';'' then
        Lexer_advance (append_token l text TokenSemicolon startLine startColumn)
      else if c = CHR '','' then
        Lexer_advance (append_token l text TokenComma startLine startColumn)
      else if c = CHR ''{'' then
        Lexer_advance (append_token l text TokenLeftBrace startLine startColumn)
      else if c = CHR ''}'' then
        Lexer_advance (append_token l text TokenRightBrace startLine startColumn)
      else if c = CHR ''['' then
        Lexer_advance (append_token l text TokenLeftBracket startLine startColumn)
      else if c = CHR '']'' then
        Lexer_advance (append_token l text TokenRightBracket startLine startColumn)
      else if c = CHR ''('' then
        Lexer_advance (append_token l text TokenLeftParen startLine startColumn)
      else if c = CHR '')'' then
        Lexer_advance (append_token l text TokenRightParen startLine startColumn)
      else if c = CHR 0x22 then
        (case readString l of (value, l') \<Rightarrow>
           append_token l' value TokenString startLine startColumn)
      else if c = CHR ''@'' then
        (let l1 = Lexer_advance l in
         if current l1 = CHR ''i'' then
           (case readIdentifier l1 of (ident, l2) \<Rightarrow>
              if ident = ''include''
              then append_token l2 ''@include'' TokenInclude startLine startColumn
              else append_token l2 (''@'' @ ident) TokenError startLine startColumn)
         else append_token l1 ''@'' TokenError startLine startColumn)
      else if unicode_IsDigit c \<or> (c = CHR ''-'' \<and> unicode_IsDigit (Lexer_peek l)) then
        (case (if c = CHR ''-'' then (''-'', Lexer_advance l) else ([], l)) of (sign, l1) \<Rightarrow>
           (case readNumber l1 of ((tokenType, value), l2) \<Rightarrow>
              append_token l2 (sign @ value) tokenType startLine startColumn))
      else if unicode_IsLetter c \<or> c = CHR ''_'' \<or> c = CHR ''*'' then
        (case readIdentifier l of (ident, l1) \<Rightarrow>
           (let lower = strings_ToLower ident in
            if lower = ''true'' \<or> lower = ''false''
            then append_token l1 lower TokenBoolean startLine startColumn
            else append_token l1 ident TokenIdentifier startLine startColumn))
      else Lexer_advance (append_token l text TokenError startLine startColumn))"

text \<open>No function of the lexer goes back in the input.\<close>

lemma remaining_skipWhitespace: "remaining (skipWhitespace l) \<le> remaining l"
proof (induction l rule: skipWhitespace.induct)
  case (1 l)
  show ?case
  proof (cases "unicode_IsSpace (current l)")
    case True
    have "remaining (skipWhitespace (Lexer_advance l)) \<le> remaining (Lexer_advance l)"
      using 1 True by simp
    also have "\<dots> \<le> remaining l"
      by (rule remaining_advance_le)
    finally show ?thesis
      using True by (subst skipWhitespace.simps) simp
  next
    case False
    then show ?thesis
      by (subst skipWhitespace.simps) simp
  qed
qed

lemma remaining_skipLine: "remaining (skipLine l) \<le> remaining l"
proof (induction l rule: skipLine.induct)
  case (1 l)
  show ?case
  proof (cases "current l \<noteq> CHR 0x0A \<and> current l \<noteq> CHR 0x00")
    case True
    have "remaining (skipLine (Lexer_advance l)) \<le> remaining (Lexer_advance l)"
      using 1 True by simp
    also have "\<dots> \<le> remaining l"
      by (rule remaining_advance_le)
    finally show ?thesis
      using True by (subst skipLine.simps) simp
  next
    case False
    then show ?thesis
      by (subst skipLine.simps) auto
  qed
qed

lemma remaining_skipLine_less:
  assumes "current l \<noteq> CHR 0x0A" and "current l \<noteq> CHR 0x00"
  shows "remaining (skipLine l) < remaining l"
proof -
  have "skipLine l = skipLine (Lexer_advance l)"
    using assms by (subst skipLine.simps) simp
  moreover have "remaining (skipLine (Lexer_advance l)) \<le> remaining (Lexer_advance l)"
    by (rule remaining_skipLine)
  moreover have "remaining (Lexer_advance l) < remaining l"
    using assms by (simp add: remaining_advance_less)
  ultimately show ?thesis by simp
qed

lemma remaining_skipBlock: "remaining (skipBlock l) \<le> remaining l"
proof (induction l rule: skipBlock.induct)
  case (1 l)
  show ?case
  proof (cases "current l \<noteq> CHR 0x00")
    case nz: True
    show ?thesis
    proof (cases "current l = CHR ''*'' \<and> Lexer_peek l = CHR ''/''")
      case True
      have "remaining (Lexer_advance (Lexer_advance l)) \<le> remaining l"
        using remaining_advance2_less [OF nz] by simp
      then show ?thesis
        using nz True by (subst skipBlock.simps) simp
    next
      case False
      have "remaining (skipBlock (Lexer_advance l)) \<le> remaining (Lexer_advance l)"
        using 1 nz False by simp
      also have "\<dots> \<le> remaining l"
        by (rule remaining_advance_le)
      finally show ?thesis
        using nz False by (subst skipBlock.simps) auto
    qed
  next
    case False
    then show ?thesis
      by (subst skipBlock.simps) simp
  qed
qed

lemma remaining_skipComment:
  assumes "skipComment l = (True, l')"
  shows "remaining l' < remaining l"
proof (cases "current l = CHR ''/''")
  case slash: True
  show ?thesis
  proof (cases "Lexer_peek l = CHR ''/''")
    case True
    then have "l' = skipLine l"
      using assms slash by (simp add: skipComment_def)
    then show ?thesis
      using slash by (simp add: remaining_skipLine_less)
  next
    case False
    then have star: "Lexer_peek l = CHR ''*''" and l': "l' = skipBlock (Lexer_advance (Lexer_advance l))"
      using assms slash by (auto simp: skipComment_def Let_def split: if_splits)
    have "remaining l' \<le> remaining (Lexer_advance (Lexer_advance l))"
      unfolding l' by (rule remaining_skipBlock)
    also have "\<dots> < remaining l"
      using slash by (simp add: remaining_advance2_less)
    finally show ?thesis .
  qed
next
  case False
  then have "current l = CHR ''#''" and "l' = skipLine l"
    using assms by (auto simp: skipComment_def split: if_splits)
  then show ?thesis
    by (simp add: remaining_skipLine_less)
qed

lemma remaining_readString_loop: "remaining (snd (readString_loop result l)) \<le> remaining l"
proof (induction "remaining l" arbitrary: result l rule: less_induct)
  case less
  show ?case
  proof (cases "current l \<noteq> CHR 0x22 \<and> current l \<noteq> CHR 0x00")
    case False
    then show ?thesis
      by (subst readString_loop.simps) auto
  next
    case True
    then have nz: "current l \<noteq> CHR 0x00" by simp
    have step: "remaining (snd (readString_loop r l')) \<le> remaining l"
      if "remaining l' < remaining l" for r l'
      using less [OF that, of r] that by simp
    have a1: "remaining (Lexer_advance l) < remaining l"
      by (rule remaining_advance_less [OF nz])
    have a2: "remaining (Lexer_advance (Lexer_advance l)) < remaining l"
      by (rule remaining_advance2_less [OF nz])
    have a3: "remaining (snd (readHex 2 [] (Lexer_advance (Lexer_advance l)))) < remaining l"
      using remaining_readHex [of 2 "[]" "Lexer_advance (Lexer_advance l)"] a2 by simp
    show ?thesis
      using True by (subst readString_loop.simps) (simp add: Let_def step a1 a2 a3)
  qed
qed

lemma remaining_readString:
  assumes "current l \<noteq> CHR 0x00"
  shows "remaining (snd (readString l)) < remaining l"
proof -
  obtain result l' where r: "readString_loop [] (Lexer_advance l) = (result, l')"
    by (cases "readString_loop [] (Lexer_advance l)")
  have "remaining l' \<le> remaining (Lexer_advance l)"
    using remaining_readString_loop [of "[]" "Lexer_advance l"] r by simp
  moreover have "remaining (Lexer_advance l') \<le> remaining l'"
    by (rule remaining_advance_le)
  moreover have "remaining (Lexer_advance l) < remaining l"
    by (rule remaining_advance_less [OF assms])
  ultimately show ?thesis
    by (simp add: readString_def r)
qed

lemma remaining_readIdentifier_loop:
  "remaining (snd (readIdentifier_loop result l)) \<le> remaining l"
proof (induction result l rule: readIdentifier_loop.induct)
  case (1 result l)
  show ?case
  proof (cases "unicode_IsLetter (current l) \<or> unicode_IsDigit (current l)
         \<or> current l = CHR ''_'' \<or> current l = CHR ''-'' \<or> current l = CHR ''*''")
    case True
    have "remaining (snd (readIdentifier_loop (result @ WriteRune (of_char (current l)))
            (Lexer_advance l))) \<le> remaining (Lexer_advance l)"
      using 1 True by simp
    also have "\<dots> \<le> remaining l"
      by (rule remaining_advance_le)
    finally show ?thesis
      using True by (subst readIdentifier_loop.simps) simp
  next
    case False
    then show ?thesis
      by (subst readIdentifier_loop.simps) simp
  qed
qed

lemma remaining_readIdentifier_less:
  assumes "unicode_IsLetter (current l) \<or> current l = CHR ''_'' \<or> current l = CHR ''*''"
  shows "remaining (snd (readIdentifier l)) < remaining l"
proof -
  have nz: "current l \<noteq> CHR 0x00"
    using assms by (auto simp: unicode_IsLetter_def)
  have "readIdentifier l
          = readIdentifier_loop ([] @ WriteRune (of_char (current l))) (Lexer_advance l)"
    unfolding readIdentifier_def using assms by (subst readIdentifier_loop.simps) auto
  moreover have "remaining (snd (readIdentifier_loop ([] @ WriteRune (of_char (current l)))
      (Lexer_advance l))) \<le> remaining (Lexer_advance l)"
    by (rule remaining_readIdentifier_loop)
  moreover have "remaining (Lexer_advance l) < remaining l"
    by (rule remaining_advance_less [OF nz])
  ultimately show ?thesis by simp
qed

lemma remaining_readHexDigits: "remaining (snd (readHexDigits result l)) \<le> remaining l"
proof (induction result l rule: readHexDigits.induct)
  case (1 result l)
  show ?case
  proof (cases "(CHR ''0'' \<le> current l \<and> current l \<le> CHR ''9'')
         \<or> (CHR ''a'' \<le> current l \<and> current l \<le> CHR ''f'')
         \<or> (CHR ''A'' \<le> current l \<and> current l \<le> CHR ''F'')")
    case True
    have "remaining (snd (readHexDigits (result @ WriteRune (of_char (current l)))
            (Lexer_advance l))) \<le> remaining (Lexer_advance l)"
      using 1 True by simp
    also have "\<dots> \<le> remaining l"
      by (rule remaining_advance_le)
    finally show ?thesis
      by (subst readHexDigits.simps) (simp only: True if_True simp_thms)
  next
    case False
    show ?thesis
      by (subst readHexDigits.simps) (simp only: False if_False snd_conv order_refl)
  qed
qed

lemma remaining_readBinDigits: "remaining (snd (readBinDigits result l)) \<le> remaining l"
proof (induction result l rule: readBinDigits.induct)
  case (1 result l)
  show ?case
  proof (cases "current l = CHR ''0'' \<or> current l = CHR ''1''")
    case True
    have "remaining (snd (readBinDigits (result @ WriteRune (of_char (current l)))
            (Lexer_advance l))) \<le> remaining (Lexer_advance l)"
      using 1 True by simp
    also have "\<dots> \<le> remaining l"
      by (rule remaining_advance_le)
    finally show ?thesis
      by (subst readBinDigits.simps) (simp only: True if_True simp_thms)
  next
    case False
    show ?thesis
      by (subst readBinDigits.simps) (simp only: False if_False snd_conv order_refl)
  qed
qed

lemma remaining_readOctDigits: "remaining (snd (readOctDigits result l)) \<le> remaining l"
proof (induction result l rule: readOctDigits.induct)
  case (1 result l)
  show ?case
  proof (cases "CHR ''0'' \<le> current l \<and> current l \<le> CHR ''7''")
    case True
    have "remaining (snd (readOctDigits (result @ WriteRune (of_char (current l)))
            (Lexer_advance l))) \<le> remaining (Lexer_advance l)"
      using 1 True by simp
    also have "\<dots> \<le> remaining l"
      by (rule remaining_advance_le)
    finally show ?thesis
      by (subst readOctDigits.simps) (simp only: True if_True simp_thms)
  next
    case False
    show ?thesis
      by (subst readOctDigits.simps) (simp only: False if_False snd_conv order_refl)
  qed
qed

lemma remaining_readDigits: "remaining (snd (readDigits result l)) \<le> remaining l"
proof (induction result l rule: readDigits.induct)
  case (1 result l)
  show ?case
  proof (cases "unicode_IsDigit (current l)")
    case True
    have "remaining (snd (readDigits (result @ WriteRune (of_char (current l)))
            (Lexer_advance l))) \<le> remaining (Lexer_advance l)"
      using 1 True by simp
    also have "\<dots> \<le> remaining l"
      by (rule remaining_advance_le)
    finally show ?thesis
      by (subst readDigits.simps) (simp only: True if_True simp_thms)
  next
    case False
    show ?thesis
      by (subst readDigits.simps) (simp only: False if_False snd_conv order_refl)
  qed
qed

lemma remaining_readNumber_prefix:
  assumes "unicode_IsDigit (current l)"
  shows "remaining (snd (readNumber_prefix l)) < remaining l"
proof -
  have nz: "current l \<noteq> CHR 0x00"
    using assms by (auto simp: unicode_IsDigit_def)
  have a1: "remaining (Lexer_advance l) < remaining l"
    by (rule remaining_advance_less [OF nz])
  have a2: "remaining (Lexer_advance (Lexer_advance l)) < remaining l"
    by (rule remaining_advance2_less [OF nz])
  show ?thesis
  proof (cases "current l = CHR ''0''")
    case True
    show ?thesis
      using True a1 a2
        le_less_trans [OF remaining_readHexDigits a2]
        le_less_trans [OF remaining_readBinDigits a2]
        le_less_trans [OF remaining_readOctDigits a2]
        le_less_trans [OF remaining_readDigits a1]
      by (simp add: readNumber_prefix_def Let_def)
  next
    case False
    have "readDigits [] l = readDigits ([] @ WriteRune (of_char (current l))) (Lexer_advance l)"
      using assms by (subst readDigits.simps) simp
    then show ?thesis
      using False le_less_trans [OF remaining_readDigits a1]
      by (simp add: readNumber_prefix_def)
  qed
qed

lemma remaining_readNumber_point: "remaining (snd (readNumber_point rl)) \<le> remaining (snd rl)"
proof -
  obtain result l where rl: "rl = (result, l)"
    by (cases rl)
  show ?thesis
  proof (cases "current l = CHR ''.'' \<and> unicode_IsDigit (Lexer_peek l)")
    case False
    then show ?thesis
      by (auto simp: rl readNumber_point_def)
  next
    case True
    have "snd (readNumber_point rl)
            = snd (readDigits (result @ WriteRune (of_char (current l))) (Lexer_advance l))"
      using True by (simp add: rl readNumber_point_def split_beta)
    then show ?thesis
      using order_trans [OF remaining_readDigits remaining_advance_le] by (simp add: rl)
  qed
qed

lemma remaining_readNumber_exponent:
  "remaining (snd (readNumber_exponent trl)) \<le> remaining (snd trl)"
proof -
  obtain tokenType result l where trl: "trl = ((tokenType, result), l)"
    by (metis prod.collapse)
  show ?thesis
  proof (cases "current l = CHR ''e'' \<or> current l = CHR ''E''")
    case False
    then show ?thesis
      by (simp add: trl readNumber_exponent_def)
  next
    case True
    define result1 where "result1 = result @ WriteRune (of_char (current l))"
    define l1 where "l1 = Lexer_advance l"
    define rl where "rl = (if current l1 = CHR ''+'' \<or> current l1 = CHR ''-''
                 then readDigits (result1 @ WriteRune (of_char (current l1))) (Lexer_advance l1)
                 else readDigits result1 l1)"
    have "remaining (snd rl) \<le> remaining l1"
      unfolding rl_def
      by (simp add: remaining_readDigits order_trans [OF remaining_readDigits remaining_advance_le])
    moreover have "remaining l1 \<le> remaining l"
      unfolding l1_def by (rule remaining_advance_le)
    moreover have "snd (readNumber_exponent trl) = snd rl"
      using True
      by (simp add: trl readNumber_exponent_def rl_def l1_def result1_def Let_def split_beta)
    ultimately show ?thesis
      by (simp add: trl)
  qed
qed

lemma remaining_readNumber_suffix:
  "remaining (snd (readNumber_suffix trl)) \<le> remaining (snd trl)"
proof (cases trl)
  case (Pair tr l)
  obtain tokenType result where tr: "tr = (tokenType, result)"
    by (cases tr)
  show ?thesis
    by (simp add: Pair tr readNumber_suffix_def remaining_advance_le)
qed

lemma remaining_readNumber_le: "remaining (snd (readNumber l)) \<le> remaining (snd (readNumber_prefix l))"
  unfolding readNumber_def
  by (rule order_trans [OF remaining_readNumber_suffix
        order_trans [OF remaining_readNumber_exponent remaining_readNumber_point]])

lemma remaining_readNumber:
  assumes "unicode_IsDigit (current l)"
  shows "remaining (snd (readNumber l)) < remaining l"
  by (rule le_less_trans [OF remaining_readNumber_le remaining_readNumber_prefix [OF assms]])

lemma remaining_append_token [simp]:
  "remaining (append_token l v ty a b) = remaining l"
  by (simp add: append_token_def remaining_def)

lemma current_append_token [simp]:
  "current (append_token l v ty a b) = current l"
  by (simp add: append_token_def)

lemma Lexer_peek_Lexer_advance:
  "Lexer_peek l \<noteq> CHR 0x00 \<Longrightarrow> current (Lexer_advance l) = Lexer_peek l"
  by (auto simp: Lexer_peek_def Lexer_advance_def Let_def split: if_splits)

lemma remaining_tokenize_switch:
  assumes nz: "current l \<noteq> CHR 0x00"
  shows "remaining (tokenize_switch startLine startColumn l) < remaining l"
proof -
  have adv: "remaining (Lexer_advance (append_token l v ty a b)) < remaining l" for v ty a b
    using remaining_advance_less [of "append_token l v ty a b"] nz by simp
  have a1: "remaining (Lexer_advance l) < remaining l"
    by (rule remaining_advance_less [OF nz])
  have str: "remaining (snd (readString l)) < remaining l"
    by (rule remaining_readString [OF nz])
  have inc: "remaining (snd (readIdentifier (Lexer_advance l))) < remaining l"
    unfolding readIdentifier_def
    by (rule le_less_trans [OF remaining_readIdentifier_loop a1])
  have num: "remaining (snd (readNumber l)) < remaining l" if "unicode_IsDigit (current l)"
    by (rule remaining_readNumber [OF that])
  have neg: "remaining (snd (readNumber (Lexer_advance l))) < remaining l"
    if "unicode_IsDigit (Lexer_peek l)"
  proof -
    have "Lexer_peek l \<noteq> CHR 0x00"
      using that by (auto simp: unicode_IsDigit_def)
    then have "unicode_IsDigit (current (Lexer_advance l))"
      using that by (simp add: Lexer_peek_Lexer_advance)
    then have "remaining (snd (readNumber (Lexer_advance l))) < remaining (Lexer_advance l)"
      by (rule remaining_readNumber)
    then show ?thesis
      using a1 by simp
  qed
  have idt: "remaining (snd (readIdentifier l)) < remaining l"
    if "unicode_IsLetter (current l) \<or> current l = CHR ''_'' \<or> current l = CHR ''*''"
    by (rule remaining_readIdentifier_less [OF that])
  have nd: "\<not> unicode_IsDigit CHR ''-''"
    by (simp add: unicode_IsDigit_def)
  show ?thesis
    unfolding tokenize_switch_def Let_def
    using adv a1 str inc num neg idt
    by (auto split: prod.split simp: split_beta nd)
qed

text \<open>
  The loop of \<^verbatim>\<open>tokenize\<close>. The line and the column of a token are read at the top of
  the loop, before the white space is skipped; after a comment the loop starts again.
\<close>

function tokenize_loop :: "Lexer \<Rightarrow> Lexer" where
  "tokenize_loop l =
     (if current l \<noteq> CHR 0x00 then
        (let startLine = line l; startColumn = column l; l1 = skipWhitespace l in
         if current l1 = CHR 0x00 then l1
         else (case skipComment l1 of
                 (True, l2) \<Rightarrow> tokenize_loop l2
               | (False, l2) \<Rightarrow> tokenize_loop (tokenize_switch startLine startColumn l2)))
      else l)"
  by pat_completeness auto
termination
proof (relation "measure remaining", goal_cases)
  case 1
  show ?case by simp
next
  case (2 l startLine startColumn l1 b l2)
  then have "remaining l2 < remaining l1"
    by (simp add: remaining_skipComment)
  moreover have "remaining l1 \<le> remaining l"
    using 2 by (simp add: remaining_skipWhitespace)
  ultimately show ?case by simp
next
  case (3 l startLine startColumn l1 b l2)
  then have "l2 = l1"
    by (auto simp: skipComment_def Let_def split: if_splits)
  then have "remaining (tokenize_switch startLine startColumn l2) < remaining l1"
    using 3 by (simp add: remaining_tokenize_switch)
  moreover have "remaining l1 \<le> remaining l"
    using 3 by (simp add: remaining_skipWhitespace)
  ultimately show ?case by simp
qed

declare tokenize_loop.simps [simp del]

definition tokenize :: "Lexer \<Rightarrow> Lexer" where
  "tokenize l =
     (let l' = tokenize_loop l in
      l'\<lparr>tokens := tokens l' @ [\<lparr>Value = [], Type = TokenEOF, Line = line l', Column = column l'\<rparr>]\<rparr>)"

text \<open>
  \<^verbatim>\<open>NewLexer\<close> reads the whole input first. The reader is its content, or \<open>None\<close> when
  reading it fails: then the lexer is empty, with the end-of-input token alone.
\<close>

definition NewLexer :: "string option \<Rightarrow> Lexer" where
  "NewLexer reader =
     (case reader of
        None \<Rightarrow>
          \<lparr>tokens = [\<lparr>Value = [], Type = TokenEOF, Line = 1, Column = 1\<rparr>],
           input = [], pos = 0, line = 1, column = 1, tokenPos = 0, current = CHR 0x00\<rparr>
      | Some inp \<Rightarrow>
          (let lexer = \<lparr>tokens = [], input = inp, pos = 0, line = 1, column = 1,
                        tokenPos = 0, current = CHR 0x00\<rparr>;
               lexer' = (if length inp > 0 then lexer\<lparr>current := inp ! 0\<rparr> else lexer)
           in tokenize lexer'))"

definition NextToken :: "Lexer \<Rightarrow> Token \<times> Lexer" where
  "NextToken l =
     (if tokenPos l \<ge> int (length (tokens l))
      then (\<lparr>Value = [], Type = TokenEOF, Line = line l, Column = column l\<rparr>, l)
      else (tokens l ! nat (tokenPos l), l\<lparr>tokenPos := tokenPos l + 1\<rparr>))"

definition PeekToken :: "Lexer \<Rightarrow> Token" where
  "PeekToken l =
     (if tokenPos l \<ge> int (length (tokens l))
      then \<lparr>Value = [], Type = TokenEOF, Line = line l, Column = column l\<rparr>
      else tokens l ! nat (tokenPos l))"

subsection \<open>Integer literals\<close>

definition parseIntegerLiteral :: "nat \<Rightarrow> string \<Rightarrow> Error + Value" where
  "parseIntegerLiteral IntSize s0 =
     (let s1 = strings_TrimSpace s0;
          isLong = (strings_HasSuffix s1 ''L'' \<or> strings_HasSuffix s1 ''l'');
          s = (if isLong then take (length s1 - 1) s1 else s1);
          r = (if strings_HasPrefix s ''0x'' \<or> strings_HasPrefix s ''0X''
                 then strconv_ParseInt (drop 2 s) 16 64
               else if strings_HasPrefix s ''0b'' \<or> strings_HasPrefix s ''0B''
                 then strconv_ParseInt (drop 2 s) 2 64
               else if strings_HasPrefix s ''0o'' \<or> strings_HasPrefix s ''0O''
                       \<or> strings_HasPrefix s ''0q'' \<or> strings_HasPrefix s ''0Q''
                 then strconv_ParseInt (drop 2 s) 8 64
               else strconv_ParseInt s 10 64)
      in case r of
           Inl err \<Rightarrow> Inl (Errorf ''invalid integer literal '%s': %w'' [ArgS s] err)
         | Inr val \<Rightarrow>
             if isLong \<or> val > maxInt IntSize \<or> val < minInt64
             then Inr (NewInt64Value val)
             else Inr (NewIntValue (to_int IntSize val)))"

subsection \<open>The environment of a parse\<close>

text \<open>
  What the parser takes from the platform and the standard library: the size of
  \<^verbatim>\<open>int\<close>, \<^verbatim>\<open>strconv.ParseFloat(s, 64)\<close>, \<^verbatim>\<open>os.Stat\<close> (does the path exist),
  \<^verbatim>\<open>os.Open\<close> with the reading of the file (an error of \<^verbatim>\<open>os.Open\<close>, or the reader:
  the content, or \<open>None\<close> when reading fails), \<^verbatim>\<open>filepath.Join\<close> of two elements and
  \<^verbatim>\<open>filepath.Dir\<close>.
\<close>

record Env =
  IntSize :: nat
  ParseFloat :: "string \<Rightarrow> Error + real"
  Stat :: "string \<Rightarrow> bool"
  Open :: "string \<Rightarrow> Error + string option"
  Join :: "string \<Rightarrow> string \<Rightarrow> string"
  Dir :: "string \<Rightarrow> string"

subsection \<open>Parser\<close>

record Parser =
  lexer :: Lexer
  baseDir :: string
  current :: Token
  includeDepth :: int

definition Parser_advance :: "Parser \<Rightarrow> Parser" where
  "Parser_advance p = (case NextToken (lexer p) of (t, l) \<Rightarrow> p\<lparr>current := t, lexer := l\<rparr>)"

text \<open>The zero value \<^verbatim>\<open>Token{}\<close>, the current token of a parser before its first advance.\<close>

definition Token_zero :: Token where
  "Token_zero = \<lparr>Value = [], Type = TokenEOF, Line = 0, Column = 0\<rparr>"

definition NewParser :: "Lexer \<Rightarrow> Parser" where
  "NewParser lx =
     Parser_advance \<lparr>lexer = lx, baseDir = [], current = Token_zero, includeDepth = 0\<rparr>"

definition NewParserWithBaseDir :: "Lexer \<Rightarrow> string \<Rightarrow> Parser" where
  "NewParserWithBaseDir lx dir =
     Parser_advance \<lparr>lexer = lx, baseDir = dir, current = Token_zero, includeDepth = 0\<rparr>"

definition Parser_expect :: "TokenType \<Rightarrow> Parser \<Rightarrow> Error + Parser" where
  "Parser_expect tokenType p =
     (if Token.Type (current p) \<noteq> tokenType then
        Inl (Errorf ''expected %s, got %s at line %d, column %d: %w''
               [ArgTok tokenType, ArgTok (Token.Type (current p)), ArgD (Line (current p)),
                ArgD (Column (current p))] ErrExpectedToken)
      else Inr (Parser_advance p))"

text \<open>
  The tokens still to come, with the current one when it is a string: the measure of the
  loop that joins adjacent strings.
\<close>

definition pending :: "Parser \<Rightarrow> nat" where
  "pending p =
     2 * nat (int (length (tokens (lexer p))) - tokenPos (lexer p))
     + (if Token.Type (current p) = TokenString then 1 else 0)"

lemma pending_advance:
  "Token.Type (current p) = TokenString \<Longrightarrow> pending (Parser_advance p) < pending p"
  by (auto simp: pending_def Parser_advance_def NextToken_def)

function concatStrings :: "string \<Rightarrow> Parser \<Rightarrow> string \<times> Parser" where
  "concatStrings value p =
     (if Token.Type (current p) = TokenString
      then concatStrings (value @ Token.Value (current p)) (Parser_advance p)
      else (value, p))"
  by pat_completeness auto
termination
  by (relation "measure (\<lambda>(value, p). pending p)") (auto intro: pending_advance)

declare concatStrings.simps [simp del]

definition Value_GroupVal_update ::
  "((string, Value) fmap \<Rightarrow> (string, Value) fmap) \<Rightarrow> Value \<Rightarrow> Value" where
  "Value_GroupVal_update f v =
     MkValue (ArrayVal v) (ListVal v) (StrVal v) (f (GroupVal v)) (IntVal v) (Int64Val v)
       (FloatVal v) (Type v) (BoolVal v)"

text \<open>
  \<^verbatim>\<open>mergeConfig\<close> writes every entry of the source into the target's map; the order of the
  writes does not matter, since the keys of a map are distinct.
\<close>

definition mergeConfig :: "Value \<Rightarrow> Value \<Rightarrow> Value" where
  "mergeConfig target source =
     (if Type target \<noteq> TypeGroup \<or> Type source \<noteq> TypeGroup then target
      else Value_GroupVal_update (\<lambda>g. g ++\<^sub>f GroupVal source) target)"

type_synonym 'a result = "(Error + 'a) option"

definition andThen :: "'a result \<Rightarrow> ('a \<Rightarrow> 'b result) \<Rightarrow> 'b result" where
  "andThen m f = (case m of None \<Rightarrow> None | Some (Inl e) \<Rightarrow> Some (Inl e) | Some (Inr x) \<Rightarrow> f x)"

lemma andThen_cong [fundef_cong]:
  "m = m' \<Longrightarrow> (\<And>x. m' = Some (Inr x) \<Longrightarrow> f x = f' x) \<Longrightarrow> andThen m f = andThen m' f'"
  by (auto simp: andThen_def split: option.splits sum.splits)

lemma andThen_simps [simp]:
  "andThen None f = None"
  "andThen (Some (Inl e)) f = Some (Inl e)"
  "andThen (Some (Inr x)) f = f x"
  by (simp_all add: andThen_def)

definition skipSemicolon :: "Parser \<Rightarrow> Parser" where
  "skipSemicolon p = (if Token.Type (current p) = TokenSemicolon then Parser_advance p else p)"

text \<open>
  The parser is a recursive descent, and an include parses another file: its twelve
  functions call one another. They take fuel, one unit for each call and each turn of a
  loop; a result is \<open>None\<close> when the fuel ran out, the error, or the value with the parser
  after it. Each function is first written over \<open>self\<close>, the functions it calls (with one
  unit of fuel less), \<open>Calls_at\<close> then ties them together by recursion on the fuel, and the
  lemmas \<open>parseValue_unfold\<close> to \<open>Parse_loop_unfold\<close> give the equations of the functions:
  with no fuel \<open>None\<close>, and otherwise the body, calling with \<open>n - 1\<close>.
\<close>

record Calls =
  call_parseValue :: "Env \<Rightarrow> Parser \<Rightarrow> (Value \<times> Parser) result"
  call_parseGroup :: "Env \<Rightarrow> Parser \<Rightarrow> (Value \<times> Parser) result"
  call_parseGroup_loop :: "Env \<Rightarrow> (string, Value) fmap \<Rightarrow> Parser \<Rightarrow> ((string, Value) fmap \<times> Parser) result"
  call_parseArray :: "Env \<Rightarrow> Parser \<Rightarrow> (Value \<times> Parser) result"
  call_parseArray_loop :: "Env \<Rightarrow> Value \<Rightarrow> Value list \<Rightarrow> Parser \<Rightarrow> (Value list \<times> Parser) result"
  call_parseList :: "Env \<Rightarrow> Parser \<Rightarrow> (Value \<times> Parser) result"
  call_parseList_loop :: "Env \<Rightarrow> Value list \<Rightarrow> Parser \<Rightarrow> (Value list \<times> Parser) result"
  call_parseSetting :: "Env \<Rightarrow> Parser \<Rightarrow> ((string \<times> Value) \<times> Parser) result"
  call_parseInclude :: "Env \<Rightarrow> Value \<Rightarrow> Parser \<Rightarrow> (Value \<times> Parser) result"
  call_parseFileWithDepth :: "Env \<Rightarrow> string \<Rightarrow> int \<Rightarrow> Config result"
  call_Parser_Parse :: "Env \<Rightarrow> Parser \<Rightarrow> Config result"
  call_Parse_loop :: "Env \<Rightarrow> Config \<Rightarrow> Parser \<Rightarrow> Config result"

definition parseValue_body ::
  "Calls \<Rightarrow> Env \<Rightarrow> Parser \<Rightarrow> (Value \<times> Parser) result" where
  "parseValue_body self env p =
     (if Token.Type (current p) = TokenString then
        (case concatStrings (Token.Value (current p)) (Parser_advance p) of
           (value, p') \<Rightarrow> Some (Inr (NewStringValue value, p')))
      else if Token.Type (current p) = TokenInteger then
        (case parseIntegerLiteral (IntSize env) (Token.Value (current p)) of
           Inl err \<Rightarrow>
             Some (Inl (Errorf ''invalid integer at line %d: %w'' [ArgD (Line (current p))] err))
         | Inr val \<Rightarrow> Some (Inr (val, Parser_advance p)))
      else if Token.Type (current p) = TokenFloat then
        (case ParseFloat env (Token.Value (current p)) of
           Inl err \<Rightarrow>
             Some (Inl (Errorf ''invalid float at line %d: %w'' [ArgD (Line (current p))] err))
         | Inr val \<Rightarrow> Some (Inr (NewFloatValue val, Parser_advance p)))
      else if Token.Type (current p) = TokenBoolean then
        Some (Inr (NewBoolValue (Token.Value (current p) = ''true''), Parser_advance p))
      else if Token.Type (current p) = TokenLeftBrace then call_parseGroup self env p
      else if Token.Type (current p) = TokenLeftBracket then call_parseArray self env p
      else if Token.Type (current p) = TokenLeftParen then call_parseList self env p
      else
        Some (Inl (Errorf ''unexpected token %s at line %d, column %d: %w''
                     [ArgTok (Token.Type (current p)), ArgD (Line (current p)),
                      ArgD (Column (current p))] ErrUnexpectedToken)))"

definition parseGroup_body ::
  "Calls \<Rightarrow> Env \<Rightarrow> Parser \<Rightarrow> (Value \<times> Parser) result" where
  "parseGroup_body self env p =
     ((case Parser_expect TokenLeftBrace p of
          Inl err \<Rightarrow> Some (Inl err)
        | Inr p1 \<Rightarrow>
            andThen (call_parseGroup_loop self env fmempty p1) (\<lambda>(groupMap, p2).
              (case Parser_expect TokenRightBrace p2 of
                 Inl err \<Rightarrow> Some (Inl err)
               | Inr p3 \<Rightarrow> Some (Inr (NewGroupValue groupMap, p3))))))"

definition parseGroup_loop_body ::
  "Calls \<Rightarrow> Env \<Rightarrow> (string, Value) fmap \<Rightarrow> Parser \<Rightarrow> ((string, Value) fmap \<times> Parser) result" where
  "parseGroup_loop_body self env groupMap p =
     (if Token.Type (current p) \<noteq> TokenRightBrace \<and> Token.Type (current p) \<noteq> TokenEOF then
        (if Token.Type (current p) = TokenInclude then
           andThen (call_parseInclude self env (MkValue [] [] [] groupMap 0 0 0 TypeGroup False) p)
             (\<lambda>(groupValue, p'). call_parseGroup_loop self env (GroupVal groupValue) p')
         else
           andThen (call_parseSetting self env p) (\<lambda>((name, value), p1).
             call_parseGroup_loop self env (fmupd name value groupMap) (skipSemicolon p1)))
      else Some (Inr (groupMap, p)))"

definition parseArray_body ::
  "Calls \<Rightarrow> Env \<Rightarrow> Parser \<Rightarrow> (Value \<times> Parser) result" where
  "parseArray_body self env p =
     ((case Parser_expect TokenLeftBracket p of
          Inl err \<Rightarrow> Some (Inl err)
        | Inr p1 \<Rightarrow>
            if Token.Type (current p1) = TokenRightBracket
            then Some (Inr (NewArrayValue [], Parser_advance p1))
            else
              andThen (call_parseValue self env p1) (\<lambda>(firstElement, p2).
                andThen (call_parseArray_loop self env firstElement [firstElement] p2)
                  (\<lambda>(elements, p3).
                    (case Parser_expect TokenRightBracket p3 of
                       Inl err \<Rightarrow> Some (Inl err)
                     | Inr p4 \<Rightarrow> Some (Inr (NewArrayValue elements, p4)))))))"

definition parseArray_loop_body ::
  "Calls \<Rightarrow> Env \<Rightarrow> Value \<Rightarrow> Value list \<Rightarrow> Parser \<Rightarrow> (Value list \<times> Parser) result" where
  "parseArray_loop_body self env firstElement elements p =
     (if Token.Type (current p) = TokenComma then
        (let p1 = Parser_advance p in
         if Token.Type (current p1) = TokenRightBracket then Some (Inr (elements, p1))
         else
           andThen (call_parseValue self env p1) (\<lambda>(element, p2).
             if Type element \<noteq> Type firstElement then
               Some (Inl (Errorf
                 ''array elements must have the same type, got %s and %s at line %d: %w''
                 [ArgVal (Type firstElement), ArgVal (Type element), ArgD (Line (current p2))]
                 ErrArrayTypeMismatch))
             else call_parseArray_loop self env firstElement (elements @ [element]) p2))
      else Some (Inr (elements, p)))"

definition parseList_body ::
  "Calls \<Rightarrow> Env \<Rightarrow> Parser \<Rightarrow> (Value \<times> Parser) result" where
  "parseList_body self env p =
     ((case Parser_expect TokenLeftParen p of
          Inl err \<Rightarrow> Some (Inl err)
        | Inr p1 \<Rightarrow>
            if Token.Type (current p1) = TokenRightParen
            then Some (Inr (NewListValue [], Parser_advance p1))
            else
              andThen (call_parseValue self env p1) (\<lambda>(element, p2).
                andThen (call_parseList_loop self env [element] p2) (\<lambda>(elements, p3).
                  (case Parser_expect TokenRightParen p3 of
                     Inl err \<Rightarrow> Some (Inl err)
                   | Inr p4 \<Rightarrow> Some (Inr (NewListValue elements, p4)))))))"

definition parseList_loop_body ::
  "Calls \<Rightarrow> Env \<Rightarrow> Value list \<Rightarrow> Parser \<Rightarrow> (Value list \<times> Parser) result" where
  "parseList_loop_body self env elements p =
     (if Token.Type (current p) = TokenComma then
        (let p1 = Parser_advance p in
         if Token.Type (current p1) = TokenRightParen then Some (Inr (elements, p1))
         else
           andThen (call_parseValue self env p1) (\<lambda>(element, p2).
             call_parseList_loop self env (elements @ [element]) p2))
      else Some (Inr (elements, p)))"

definition parseSetting_body ::
  "Calls \<Rightarrow> Env \<Rightarrow> Parser \<Rightarrow> ((string \<times> Value) \<times> Parser) result" where
  "parseSetting_body self env p =
     (if Token.Type (current p) \<noteq> TokenIdentifier then
        Some (Inl (Errorf ''expected identifier at line %d, column %d: %w''
                     [ArgD (Line (current p)), ArgD (Column (current p))] ErrExpectedIdentifier))
      else
        (let name = Token.Value (current p); p1 = Parser_advance p in
         if Token.Type (current p1) \<noteq> TokenAssign then
           Some (Inl (Errorf ''expected assignment operator at line %d, column %d: %w''
                        [ArgD (Line (current p1)), ArgD (Column (current p1))]
                        ErrExpectedAssignment))
         else
           andThen (call_parseValue self env (Parser_advance p1)) (\<lambda>(value, p2).
             Some (Inr ((name, value), p2)))))"

definition parseInclude_body ::
  "Calls \<Rightarrow> Env \<Rightarrow> Value \<Rightarrow> Parser \<Rightarrow> (Value \<times> Parser) result" where
  "parseInclude_body self env target p =
     (if includeDepth p \<ge> 10 then
        Some (Inl (Errorf ''include depth limit exceeded (10) at line %d: %w''
                     [ArgD (Line (current p))] ErrIncludeDepthExceeded))
      else
        (let p1 = Parser_advance p in
         if Token.Type (current p1) \<noteq> TokenString then
           Some (Inl (Errorf ''expected string after @include at line %d: %w''
                        [ArgD (Line (current p1))] ErrExpectedStringAfterInclude))
         else
           (let includePath = Token.Value (current p1);
                p2 = skipSemicolon (Parser_advance p1);
                fullPath = (if baseDir p2 \<noteq> [] then Join env (baseDir p2) includePath
                            else includePath);
                possiblePaths = [fullPath, fullPath @ ''.cnf'', fullPath @ ''.cfg''];
                existingPath = (case find (Stat env) possiblePaths of
                                  None \<Rightarrow> []
                                | Some path \<Rightarrow> path)
            in if existingPath = [] then
                 Some (Inl (Errorf ''include file '%s' not found (tried: %v): %w''
                              [ArgS includePath, ArgList possiblePaths] ErrIncludeFileNotFound))
               else
                 (case call_parseFileWithDepth self env existingPath (includeDepth p2 + 1) of
                    None \<Rightarrow> None
                  | Some (Inl err) \<Rightarrow>
                      Some (Inl (Errorf ''error parsing included file '%s': %w''
                                   [ArgS existingPath] err))
                  | Some (Inr includedConfig) \<Rightarrow>
                      Some (Inr (mergeConfig target (Root includedConfig), p2))))))"

definition parseFileWithDepth_body ::
  "Calls \<Rightarrow> Env \<Rightarrow> string \<Rightarrow> int \<Rightarrow> Config result" where
  "parseFileWithDepth_body self env filename depth =
     ((case Open env filename of
          Inl err \<Rightarrow> Some (Inl (Errorf ''failed to open file: %w'' [] err))
        | Inr reader \<Rightarrow>
            call_Parser_Parse self env
              ((NewParserWithBaseDir (NewLexer reader) (Dir env filename))
                 \<lparr>includeDepth := depth\<rparr>)))"

definition Parser_Parse_body ::
  "Calls \<Rightarrow> Env \<Rightarrow> Parser \<Rightarrow> Config result" where
  "Parser_Parse_body self env p =
     (call_Parse_loop self env NewConfig p)"

definition Parse_loop_body ::
  "Calls \<Rightarrow> Env \<Rightarrow> Config \<Rightarrow> Parser \<Rightarrow> Config result" where
  "Parse_loop_body self env config p =
     (if Token.Type (current p) \<noteq> TokenEOF then
        (if Token.Type (current p) = TokenInclude then
           andThen (call_parseInclude self env (Root config) p) (\<lambda>(root', p').
             call_Parse_loop self env (config\<lparr>Root := root'\<rparr>) p')
         else
           andThen (call_parseSetting self env p) (\<lambda>((name, value), p1).
             call_Parse_loop self env
               (config\<lparr>Root := Value_GroupVal_update (fmupd name value) (Root config)\<rparr>)
               (skipSemicolon p1)))
      else Some (Inr config))"

primrec Calls_at :: "nat \<Rightarrow> Calls" where
  "Calls_at 0 =
     \<lparr>call_parseValue = (\<lambda>env. \<lambda>_. None),
      call_parseGroup = (\<lambda>env. \<lambda>_. None),
      call_parseGroup_loop = (\<lambda>env. \<lambda>_ _. None),
      call_parseArray = (\<lambda>env. \<lambda>_. None),
      call_parseArray_loop = (\<lambda>env. \<lambda>_ _ _. None),
      call_parseList = (\<lambda>env. \<lambda>_. None),
      call_parseList_loop = (\<lambda>env. \<lambda>_ _. None),
      call_parseSetting = (\<lambda>env. \<lambda>_. None),
      call_parseInclude = (\<lambda>env. \<lambda>_ _. None),
      call_parseFileWithDepth = (\<lambda>env. \<lambda>_ _. None),
      call_Parser_Parse = (\<lambda>env. \<lambda>_. None),
      call_Parse_loop = (\<lambda>env. \<lambda>_ _. None)\<rparr>"
| "Calls_at (Suc n) =
     \<lparr>call_parseValue = parseValue_body (Calls_at n),
      call_parseGroup = parseGroup_body (Calls_at n),
      call_parseGroup_loop = parseGroup_loop_body (Calls_at n),
      call_parseArray = parseArray_body (Calls_at n),
      call_parseArray_loop = parseArray_loop_body (Calls_at n),
      call_parseList = parseList_body (Calls_at n),
      call_parseList_loop = parseList_loop_body (Calls_at n),
      call_parseSetting = parseSetting_body (Calls_at n),
      call_parseInclude = parseInclude_body (Calls_at n),
      call_parseFileWithDepth = parseFileWithDepth_body (Calls_at n),
      call_Parser_Parse = Parser_Parse_body (Calls_at n),
      call_Parse_loop = Parse_loop_body (Calls_at n)\<rparr>"

definition parseValue ::
  "nat \<Rightarrow> Env \<Rightarrow> Parser \<Rightarrow> (Value \<times> Parser) result" where
  "parseValue n = call_parseValue (Calls_at n)"

definition parseGroup ::
  "nat \<Rightarrow> Env \<Rightarrow> Parser \<Rightarrow> (Value \<times> Parser) result" where
  "parseGroup n = call_parseGroup (Calls_at n)"

definition parseGroup_loop ::
  "nat \<Rightarrow> Env \<Rightarrow> (string, Value) fmap \<Rightarrow> Parser \<Rightarrow> ((string, Value) fmap \<times> Parser) result" where
  "parseGroup_loop n = call_parseGroup_loop (Calls_at n)"

definition parseArray ::
  "nat \<Rightarrow> Env \<Rightarrow> Parser \<Rightarrow> (Value \<times> Parser) result" where
  "parseArray n = call_parseArray (Calls_at n)"

definition parseArray_loop ::
  "nat \<Rightarrow> Env \<Rightarrow> Value \<Rightarrow> Value list \<Rightarrow> Parser \<Rightarrow> (Value list \<times> Parser) result" where
  "parseArray_loop n = call_parseArray_loop (Calls_at n)"

definition parseList ::
  "nat \<Rightarrow> Env \<Rightarrow> Parser \<Rightarrow> (Value \<times> Parser) result" where
  "parseList n = call_parseList (Calls_at n)"

definition parseList_loop ::
  "nat \<Rightarrow> Env \<Rightarrow> Value list \<Rightarrow> Parser \<Rightarrow> (Value list \<times> Parser) result" where
  "parseList_loop n = call_parseList_loop (Calls_at n)"

definition parseSetting ::
  "nat \<Rightarrow> Env \<Rightarrow> Parser \<Rightarrow> ((string \<times> Value) \<times> Parser) result" where
  "parseSetting n = call_parseSetting (Calls_at n)"

definition parseInclude ::
  "nat \<Rightarrow> Env \<Rightarrow> Value \<Rightarrow> Parser \<Rightarrow> (Value \<times> Parser) result" where
  "parseInclude n = call_parseInclude (Calls_at n)"

definition parseFileWithDepth ::
  "nat \<Rightarrow> Env \<Rightarrow> string \<Rightarrow> int \<Rightarrow> Config result" where
  "parseFileWithDepth n = call_parseFileWithDepth (Calls_at n)"

definition Parser_Parse ::
  "nat \<Rightarrow> Env \<Rightarrow> Parser \<Rightarrow> Config result" where
  "Parser_Parse n = call_Parser_Parse (Calls_at n)"

definition Parse_loop ::
  "nat \<Rightarrow> Env \<Rightarrow> Config \<Rightarrow> Parser \<Rightarrow> Config result" where
  "Parse_loop n = call_Parse_loop (Calls_at n)"

lemmas parser_defs = parseValue_def parseGroup_def parseGroup_loop_def parseArray_def parseArray_loop_def parseList_def parseList_loop_def parseSetting_def parseInclude_def parseFileWithDepth_def Parser_Parse_def Parse_loop_def

lemmas parser_body_defs = parseValue_body_def parseGroup_body_def parseGroup_loop_body_def parseArray_body_def parseArray_loop_body_def parseList_body_def parseList_loop_body_def parseSetting_body_def parseInclude_body_def parseFileWithDepth_body_def Parser_Parse_body_def Parse_loop_body_def

lemma parseValue_unfold:
  "parseValue n env p =
     (if n = 0 then None
      else if Token.Type (current p) = TokenString then
        (case concatStrings (Token.Value (current p)) (Parser_advance p) of
           (value, p') \<Rightarrow> Some (Inr (NewStringValue value, p')))
      else if Token.Type (current p) = TokenInteger then
        (case parseIntegerLiteral (IntSize env) (Token.Value (current p)) of
           Inl err \<Rightarrow>
             Some (Inl (Errorf ''invalid integer at line %d: %w'' [ArgD (Line (current p))] err))
         | Inr val \<Rightarrow> Some (Inr (val, Parser_advance p)))
      else if Token.Type (current p) = TokenFloat then
        (case ParseFloat env (Token.Value (current p)) of
           Inl err \<Rightarrow>
             Some (Inl (Errorf ''invalid float at line %d: %w'' [ArgD (Line (current p))] err))
         | Inr val \<Rightarrow> Some (Inr (NewFloatValue val, Parser_advance p)))
      else if Token.Type (current p) = TokenBoolean then
        Some (Inr (NewBoolValue (Token.Value (current p) = ''true''), Parser_advance p))
      else if Token.Type (current p) = TokenLeftBrace then parseGroup (n - 1) env p
      else if Token.Type (current p) = TokenLeftBracket then parseArray (n - 1) env p
      else if Token.Type (current p) = TokenLeftParen then parseList (n - 1) env p
      else
        Some (Inl (Errorf ''unexpected token %s at line %d, column %d: %w''
                     [ArgTok (Token.Type (current p)), ArgD (Line (current p)),
                      ArgD (Column (current p))] ErrUnexpectedToken)))"
proof (cases n)
  case 0
  then show ?thesis
    by (simp add: parseValue_def)
next
  case (Suc m)
  show ?thesis
    unfolding Suc parser_defs diff_Suc_1 Calls_at.simps Calls.select_convs parseValue_body_def
    by simp
qed

lemma parseGroup_unfold:
  "parseGroup n env p =
     (if n = 0 then None
      else (case Parser_expect TokenLeftBrace p of
          Inl err \<Rightarrow> Some (Inl err)
        | Inr p1 \<Rightarrow>
            andThen (parseGroup_loop (n - 1) env fmempty p1) (\<lambda>(groupMap, p2).
              (case Parser_expect TokenRightBrace p2 of
                 Inl err \<Rightarrow> Some (Inl err)
               | Inr p3 \<Rightarrow> Some (Inr (NewGroupValue groupMap, p3))))))"
proof (cases n)
  case 0
  then show ?thesis
    by (simp add: parseGroup_def)
next
  case (Suc m)
  show ?thesis
    unfolding Suc parser_defs diff_Suc_1 Calls_at.simps Calls.select_convs parseGroup_body_def
    by simp
qed

lemma parseGroup_loop_unfold:
  "parseGroup_loop n env groupMap p =
     (if n = 0 then None
      else if Token.Type (current p) \<noteq> TokenRightBrace \<and> Token.Type (current p) \<noteq> TokenEOF then
        (if Token.Type (current p) = TokenInclude then
           andThen (parseInclude (n - 1) env (MkValue [] [] [] groupMap 0 0 0 TypeGroup False) p)
             (\<lambda>(groupValue, p'). parseGroup_loop (n - 1) env (GroupVal groupValue) p')
         else
           andThen (parseSetting (n - 1) env p) (\<lambda>((name, value), p1).
             parseGroup_loop (n - 1) env (fmupd name value groupMap) (skipSemicolon p1)))
      else Some (Inr (groupMap, p)))"
proof (cases n)
  case 0
  then show ?thesis
    by (simp add: parseGroup_loop_def)
next
  case (Suc m)
  show ?thesis
    unfolding Suc parser_defs diff_Suc_1 Calls_at.simps Calls.select_convs parseGroup_loop_body_def
    by simp
qed

lemma parseArray_unfold:
  "parseArray n env p =
     (if n = 0 then None
      else (case Parser_expect TokenLeftBracket p of
          Inl err \<Rightarrow> Some (Inl err)
        | Inr p1 \<Rightarrow>
            if Token.Type (current p1) = TokenRightBracket
            then Some (Inr (NewArrayValue [], Parser_advance p1))
            else
              andThen (parseValue (n - 1) env p1) (\<lambda>(firstElement, p2).
                andThen (parseArray_loop (n - 1) env firstElement [firstElement] p2)
                  (\<lambda>(elements, p3).
                    (case Parser_expect TokenRightBracket p3 of
                       Inl err \<Rightarrow> Some (Inl err)
                     | Inr p4 \<Rightarrow> Some (Inr (NewArrayValue elements, p4)))))))"
proof (cases n)
  case 0
  then show ?thesis
    by (simp add: parseArray_def)
next
  case (Suc m)
  show ?thesis
    unfolding Suc parser_defs diff_Suc_1 Calls_at.simps Calls.select_convs parseArray_body_def
    by simp
qed

lemma parseArray_loop_unfold:
  "parseArray_loop n env firstElement elements p =
     (if n = 0 then None
      else if Token.Type (current p) = TokenComma then
        (let p1 = Parser_advance p in
         if Token.Type (current p1) = TokenRightBracket then Some (Inr (elements, p1))
         else
           andThen (parseValue (n - 1) env p1) (\<lambda>(element, p2).
             if Type element \<noteq> Type firstElement then
               Some (Inl (Errorf
                 ''array elements must have the same type, got %s and %s at line %d: %w''
                 [ArgVal (Type firstElement), ArgVal (Type element), ArgD (Line (current p2))]
                 ErrArrayTypeMismatch))
             else parseArray_loop (n - 1) env firstElement (elements @ [element]) p2))
      else Some (Inr (elements, p)))"
proof (cases n)
  case 0
  then show ?thesis
    by (simp add: parseArray_loop_def)
next
  case (Suc m)
  show ?thesis
    unfolding Suc parser_defs diff_Suc_1 Calls_at.simps Calls.select_convs parseArray_loop_body_def
    by simp
qed

lemma parseList_unfold:
  "parseList n env p =
     (if n = 0 then None
      else (case Parser_expect TokenLeftParen p of
          Inl err \<Rightarrow> Some (Inl err)
        | Inr p1 \<Rightarrow>
            if Token.Type (current p1) = TokenRightParen
            then Some (Inr (NewListValue [], Parser_advance p1))
            else
              andThen (parseValue (n - 1) env p1) (\<lambda>(element, p2).
                andThen (parseList_loop (n - 1) env [element] p2) (\<lambda>(elements, p3).
                  (case Parser_expect TokenRightParen p3 of
                     Inl err \<Rightarrow> Some (Inl err)
                   | Inr p4 \<Rightarrow> Some (Inr (NewListValue elements, p4)))))))"
proof (cases n)
  case 0
  then show ?thesis
    by (simp add: parseList_def)
next
  case (Suc m)
  show ?thesis
    unfolding Suc parser_defs diff_Suc_1 Calls_at.simps Calls.select_convs parseList_body_def
    by simp
qed

lemma parseList_loop_unfold:
  "parseList_loop n env elements p =
     (if n = 0 then None
      else if Token.Type (current p) = TokenComma then
        (let p1 = Parser_advance p in
         if Token.Type (current p1) = TokenRightParen then Some (Inr (elements, p1))
         else
           andThen (parseValue (n - 1) env p1) (\<lambda>(element, p2).
             parseList_loop (n - 1) env (elements @ [element]) p2))
      else Some (Inr (elements, p)))"
proof (cases n)
  case 0
  then show ?thesis
    by (simp add: parseList_loop_def)
next
  case (Suc m)
  show ?thesis
    unfolding Suc parser_defs diff_Suc_1 Calls_at.simps Calls.select_convs parseList_loop_body_def
    by simp
qed

lemma parseSetting_unfold:
  "parseSetting n env p =
     (if n = 0 then None
      else if Token.Type (current p) \<noteq> TokenIdentifier then
        Some (Inl (Errorf ''expected identifier at line %d, column %d: %w''
                     [ArgD (Line (current p)), ArgD (Column (current p))] ErrExpectedIdentifier))
      else
        (let name = Token.Value (current p); p1 = Parser_advance p in
         if Token.Type (current p1) \<noteq> TokenAssign then
           Some (Inl (Errorf ''expected assignment operator at line %d, column %d: %w''
                        [ArgD (Line (current p1)), ArgD (Column (current p1))]
                        ErrExpectedAssignment))
         else
           andThen (parseValue (n - 1) env (Parser_advance p1)) (\<lambda>(value, p2).
             Some (Inr ((name, value), p2)))))"
proof (cases n)
  case 0
  then show ?thesis
    by (simp add: parseSetting_def)
next
  case (Suc m)
  show ?thesis
    unfolding Suc parser_defs diff_Suc_1 Calls_at.simps Calls.select_convs parseSetting_body_def
    by simp
qed

lemma parseInclude_unfold:
  "parseInclude n env target p =
     (if n = 0 then None
      else if includeDepth p \<ge> 10 then
        Some (Inl (Errorf ''include depth limit exceeded (10) at line %d: %w''
                     [ArgD (Line (current p))] ErrIncludeDepthExceeded))
      else
        (let p1 = Parser_advance p in
         if Token.Type (current p1) \<noteq> TokenString then
           Some (Inl (Errorf ''expected string after @include at line %d: %w''
                        [ArgD (Line (current p1))] ErrExpectedStringAfterInclude))
         else
           (let includePath = Token.Value (current p1);
                p2 = skipSemicolon (Parser_advance p1);
                fullPath = (if baseDir p2 \<noteq> [] then Join env (baseDir p2) includePath
                            else includePath);
                possiblePaths = [fullPath, fullPath @ ''.cnf'', fullPath @ ''.cfg''];
                existingPath = (case find (Stat env) possiblePaths of
                                  None \<Rightarrow> []
                                | Some path \<Rightarrow> path)
            in if existingPath = [] then
                 Some (Inl (Errorf ''include file '%s' not found (tried: %v): %w''
                              [ArgS includePath, ArgList possiblePaths] ErrIncludeFileNotFound))
               else
                 (case parseFileWithDepth (n - 1) env existingPath (includeDepth p2 + 1) of
                    None \<Rightarrow> None
                  | Some (Inl err) \<Rightarrow>
                      Some (Inl (Errorf ''error parsing included file '%s': %w''
                                   [ArgS existingPath] err))
                  | Some (Inr includedConfig) \<Rightarrow>
                      Some (Inr (mergeConfig target (Root includedConfig), p2))))))"
proof (cases n)
  case 0
  then show ?thesis
    by (simp add: parseInclude_def)
next
  case (Suc m)
  show ?thesis
    unfolding Suc parser_defs diff_Suc_1 Calls_at.simps Calls.select_convs parseInclude_body_def
    by simp
qed

lemma parseFileWithDepth_unfold:
  "parseFileWithDepth n env filename depth =
     (if n = 0 then None
      else (case Open env filename of
          Inl err \<Rightarrow> Some (Inl (Errorf ''failed to open file: %w'' [] err))
        | Inr reader \<Rightarrow>
            Parser_Parse (n - 1) env
              ((NewParserWithBaseDir (NewLexer reader) (Dir env filename))
                 \<lparr>includeDepth := depth\<rparr>)))"
proof (cases n)
  case 0
  then show ?thesis
    by (simp add: parseFileWithDepth_def)
next
  case (Suc m)
  show ?thesis
    unfolding Suc parser_defs diff_Suc_1 Calls_at.simps Calls.select_convs parseFileWithDepth_body_def
    by simp
qed

lemma Parser_Parse_unfold:
  "Parser_Parse n env p =
     (if n = 0 then None else Parse_loop (n - 1) env NewConfig p)"
proof (cases n)
  case 0
  then show ?thesis
    by (simp add: Parser_Parse_def)
next
  case (Suc m)
  show ?thesis
    unfolding Suc parser_defs diff_Suc_1 Calls_at.simps Calls.select_convs Parser_Parse_body_def
    by simp
qed

lemma Parse_loop_unfold:
  "Parse_loop n env config p =
     (if n = 0 then None
      else if Token.Type (current p) \<noteq> TokenEOF then
        (if Token.Type (current p) = TokenInclude then
           andThen (parseInclude (n - 1) env (Root config) p) (\<lambda>(root', p').
             Parse_loop (n - 1) env (config\<lparr>Root := root'\<rparr>) p')
         else
           andThen (parseSetting (n - 1) env p) (\<lambda>((name, value), p1).
             Parse_loop (n - 1) env
               (config\<lparr>Root := Value_GroupVal_update (fmupd name value) (Root config)\<rparr>)
               (skipSemicolon p1)))
      else Some (Inr config))"
proof (cases n)
  case 0
  then show ?thesis
    by (simp add: Parse_loop_def)
next
  case (Suc m)
  show ?thesis
    unfolding Suc parser_defs diff_Suc_1 Calls_at.simps Calls.select_convs Parse_loop_body_def
    by simp
qed

definition ParseFile :: "nat \<Rightarrow> Env \<Rightarrow> string \<Rightarrow> Config result" where
  "ParseFile n env filename =
     (case Open env filename of
        Inl err \<Rightarrow> Some (Inl (Errorf ''failed to open file: %w'' [] err))
      | Inr reader \<Rightarrow>
          Parser_Parse n env (NewParserWithBaseDir (NewLexer reader) (Dir env filename)))"

definition Parse :: "nat \<Rightarrow> Env \<Rightarrow> string option \<Rightarrow> Config result" where
  "Parse n env reader = Parser_Parse n env (NewParser (NewLexer reader))"

definition ParseString :: "nat \<Rightarrow> Env \<Rightarrow> string \<Rightarrow> Config result" where
  "ParseString n env inp = Parse n env (Some inp)"

section \<open>Properties\<close>

subsection \<open>Lookup by path\<close>

lemma strings_Split_not_Nil: "strings_Split s sep \<noteq> []"
  by (induction s) (auto split: list.splits)

lemma strings_Split_append:
  "strings_Split (a @ sep # b) sep = strings_Split a sep @ strings_Split b sep"
proof (induction a)
  case Nil
  show ?case by simp
next
  case (Cons c a)
  obtain p ps where "strings_Split a sep = p # ps"
    using strings_Split_not_Nil [of a sep] by (cases "strings_Split a sep") auto
  with Cons show ?case by simp
qed

lemma Lookup_loop_filter:
  "Lookup_loop cur parts = Lookup_loop cur (filter (\<lambda>part. part \<noteq> []) parts)"
  by (induction cur parts rule: Lookup_loop.induct) (auto split: option.splits)

lemma Lookup_loop_all_empty:
  "\<forall>part \<in> set parts. part = [] \<Longrightarrow> Lookup_loop cur parts = Inr cur"
  by (induction parts) auto

text \<open>
  The configuration \<^verbatim>\<open>a = { b = { c = 5; }; };\<close>, built with the constructors.
\<close>

definition nested_config :: Config where
  "nested_config =
     \<lparr>Root = NewGroupValue (fmupd ''a''
        (NewGroupValue (fmupd ''b''
           (NewGroupValue (fmupd ''c'' (NewIntValue 5) fmempty)) fmempty)) fmempty)\<rparr>"

text \<open>
  C8. \<^verbatim>\<open>Lookup\<close> splits the path on the dot and skips the empty segments: it is the
  descent along the segments that are not empty, so a dot more at the front, at the end or
  after another dot changes nothing, and a path of empty segments only gives the root. A
  segment that is not empty fails with \<^verbatim>\<open>ErrCannotLookupInNonGroup\<close> on a value that is
  no group and with \<^verbatim>\<open>ErrSettingNotFound\<close> on a group without that key, and neither of the
  two errors is the other.
\<close>

theorem Lookup_path_segments:
  "Lookup c path = Lookup_loop (Root c) (filter (\<lambda>part. part \<noteq> []) (strings_Split path CHR ''.''))
   \<and> Lookup c (CHR ''.'' # path) = Lookup c path
   \<and> Lookup c (path @ ''.'') = Lookup c path
   \<and> Lookup c (path @ ''..'' @ path') = Lookup c (path @ ''.'' @ path')
   \<and> ((\<forall>part \<in> set (strings_Split path CHR ''.''). part = []) \<longrightarrow> Lookup c path = Inr (Root c))
   \<and> (part \<noteq> [] \<and> Type cur \<noteq> TypeGroup \<longrightarrow>
        Lookup_loop cur (part # parts)
          = Inl (Errorf ''cannot lookup '%s': %w'' [ArgS part] ErrCannotLookupInNonGroup))
   \<and> (part \<noteq> [] \<and> Type cur = TypeGroup \<and> fmlookup (GroupVal cur) part = None \<longrightarrow>
        Lookup_loop cur (part # parts)
          = Inl (Errorf ''setting '%s': %w'' [ArgS part] ErrSettingNotFound))
   \<and> (part \<noteq> [] \<and> Type cur = TypeGroup \<and> fmlookup (GroupVal cur) part = Some val \<longrightarrow>
        Lookup_loop cur (part # parts) = Lookup_loop val parts)
   \<and> \<not> errors_Is (Errorf ''cannot lookup '%s': %w'' [ArgS part] ErrCannotLookupInNonGroup)
          ErrSettingNotFound
   \<and> \<not> errors_Is (Errorf ''setting '%s': %w'' [ArgS part'] ErrSettingNotFound)
          ErrCannotLookupInNonGroup"
proof -
  have skip: "Lookup c p = Lookup_loop (Root c) (filter (\<lambda>part. part \<noteq> []) (strings_Split p CHR ''.''))"
    for p
    unfolding Lookup_def by (rule Lookup_loop_filter)
  have leading: "Lookup c (CHR ''.'' # path) = Lookup c path"
    by (simp add: Lookup_def)
  have trailing: "Lookup c (path @ ''.'') = Lookup c path"
    by (simp add: skip strings_Split_append)
  have "strings_Split (path @ ''..'' @ path') CHR ''.''
          = strings_Split path CHR ''.'' @ [] # strings_Split path' CHR ''.''"
    using strings_Split_append [of path "CHR ''.''" "CHR ''.'' # path'"] by simp
  moreover have "strings_Split (path @ ''.'' @ path') CHR ''.''
          = strings_Split path CHR ''.'' @ strings_Split path' CHR ''.''"
    using strings_Split_append [of path "CHR ''.''" path'] by simp
  ultimately have doubled: "Lookup c (path @ ''..'' @ path') = Lookup c (path @ ''.'' @ path')"
    by (simp add: skip)
  have empty: "(\<forall>part \<in> set (strings_Split path CHR ''.''). part = []) \<longrightarrow> Lookup c path = Inr (Root c)"
    by (simp add: Lookup_def Lookup_loop_all_empty)
  have distinct: "\<not> errors_Is (Errorf ''cannot lookup '%s': %w'' [ArgS part] ErrCannotLookupInNonGroup)
          ErrSettingNotFound"
    "\<not> errors_Is (Errorf ''setting '%s': %w'' [ArgS part'] ErrSettingNotFound)
          ErrCannotLookupInNonGroup"
    by (simp_all add: ErrCannotLookupInNonGroup_def ErrSettingNotFound_def)
  show ?thesis
    using skip [of path] leading trailing doubled empty distinct by simp
qed

theorem Lookup_path_segments_witness:
  "Lookup nested_config [] = Inr (Root nested_config)
   \<and> Lookup nested_config ''..'' = Inr (Root nested_config)
   \<and> Lookup nested_config ''a.b.c'' = Inr (NewIntValue 5)
   \<and> Lookup nested_config ''.a..b.c.'' = Inr (NewIntValue 5)
   \<and> Lookup nested_config ''a.b.c.d''
        = Inl (Errorf ''cannot lookup '%s': %w'' [ArgS ''d''] ErrCannotLookupInNonGroup)
   \<and> Lookup nested_config ''a.x''
        = Inl (Errorf ''setting '%s': %w'' [ArgS ''x''] ErrSettingNotFound)"
proof -
  note inst = Lookup_path_segments [where c = nested_config]
  have 1: "Lookup nested_config [] = Inr (Root nested_config)"
    using inst [where path = "[]"] by simp
  have 2: "Lookup nested_config ''..'' = Inr (Root nested_config)"
    using inst [where path = "''..''"] by simp
  have 3: "Lookup nested_config ''a.b.c'' = Inr (NewIntValue 5)"
    using inst [where path = "''a.b.c''"]
    by (simp add: nested_config_def NewGroupValue_def NewIntValue_def)
  have 4: "Lookup nested_config ''.a..b.c.'' = Inr (NewIntValue 5)"
    using inst [where path = "''.a..b.c.''"]
    by (simp add: nested_config_def NewGroupValue_def NewIntValue_def)
  have 5: "Lookup nested_config ''a.b.c.d''
        = Inl (Errorf ''cannot lookup '%s': %w'' [ArgS ''d''] ErrCannotLookupInNonGroup)"
    using inst [where path = "''a.b.c.d''" and part = "''d''" and cur = "NewIntValue 5" and parts = "[]"]
    by (simp add: nested_config_def NewGroupValue_def NewIntValue_def)
  have 6: "Lookup nested_config ''a.x''
        = Inl (Errorf ''setting '%s': %w'' [ArgS ''x''] ErrSettingNotFound)"
    using inst [where path = "''a.x''" and part = "''x''" and parts = "[]"
        and cur = "NewGroupValue (fmupd ''b''
           (NewGroupValue (fmupd ''c'' (NewIntValue 5) fmempty)) fmempty)"]
    by (simp add: nested_config_def NewGroupValue_def NewIntValue_def)
  show ?thesis
    using 1 2 3 4 5 6 by simp
qed
subsection \<open>Integers of 32 and of 64 bits\<close>

lemma maxInt_32_64: "maxInt 32 = 2147483647" "maxInt 64 = 9223372036854775807"
  by (simp_all add: maxInt_def)

lemma to_int_id:
  assumes "w = 32 \<or> w = 64"
    and "- (2 ^ (w - 1)) \<le> val" and "val \<le> maxInt w"
  shows "to_int w val = val"
  using assms by (auto simp: to_int_def maxInt_def)

text \<open>
  A configuration with the one setting \<^verbatim>\<open>x\<close>, of kind \<^verbatim>\<open>Int64\<close> and value 5000000000,
  and one with the setting \<^verbatim>\<open>n\<close>, of kind \<^verbatim>\<open>Int\<close> and value 7.
\<close>

definition big_config :: Config where
  "big_config = \<lparr>Root = NewGroupValue (fmupd ''x'' (NewInt64Value 5000000000) fmempty)\<rparr>"

definition small_config :: Config where
  "small_config = \<lparr>Root = NewGroupValue (fmupd ''n'' (NewIntValue 7) fmempty)\<rparr>"

lemma Lookup_big_config: "Lookup big_config ''x'' = Inr (NewInt64Value 5000000000)"
  by (simp add: Lookup_def big_config_def NewGroupValue_def)

lemma Lookup_small_config: "Lookup small_config ''n'' = Inr (NewIntValue 7)"
  by (simp add: Lookup_def small_config_def NewGroupValue_def)

text \<open>
  C2, as stated, fails where \<^verbatim>\<open>int\<close> has 64 bits: the value 5000000000 of kind
  \<^verbatim>\<open>Int64\<close> is outside the signed 32-bit range, and \<^verbatim>\<open>LookupInt\<close> returns it, with
  no error.
\<close>

theorem LookupInt_out_of_32_bit_range_counterexample:
  "Lookup big_config ''x'' = Inr (NewInt64Value 5000000000)
   \<and> Type (NewInt64Value 5000000000) = TypeInt64
   \<and> (2147483647 :: int) < Int64Val (NewInt64Value 5000000000)
   \<and> LookupInt 64 big_config ''x'' = Inr 5000000000"
  by (simp add: LookupInt_def Lookup_big_config NewInt64Value_def maxInt_def minInt64_def
      to_int_def)

text \<open>
  C2, amended. The range of \<^verbatim>\<open>LookupInt\<close> is the range of the platform's \<^verbatim>\<open>int\<close>: for
  a value of kind \<^verbatim>\<open>Int64\<close> that is not below the least \<^verbatim>\<open>int\<close>, \<^verbatim>\<open>LookupInt\<close> returns
  the stored number when it is at most the greatest \<^verbatim>\<open>int\<close>, and the out-of-range error
  otherwise. For a value of kind \<^verbatim>\<open>Int\<close>, \<^verbatim>\<open>LookupInt64\<close> returns the stored number.
\<close>

theorem LookupInt_platform_range:
  assumes "Lookup c path = Inr v" and "w = 32 \<or> w = 64"
  shows "(Type v = TypeInt64 \<and> - (2 ^ (w - 1)) \<le> Int64Val v \<longrightarrow>
            LookupInt w c path =
              (if Int64Val v \<le> 2 ^ (w - 1) - 1 then Inr (Int64Val v)
               else Inl (Errorf ''int64 value %d: %w'' [ArgD (Int64Val v)] ErrIntegerOutOfRange)))
         \<and> (Type v = TypeInt \<longrightarrow> LookupInt64 c path = Inr (IntVal v))"
proof -
  have max: "maxInt w = 2 ^ (w - 1) - 1"
    using assms(2) by (auto simp: maxInt_def)
  have min: "- (2 ^ (w - 1)) \<le> val \<Longrightarrow> \<not> val < minInt64" for val :: int
    using assms(2) by (auto simp: minInt64_def)
  have id: "- (2 ^ (w - 1)) \<le> val \<Longrightarrow> val \<le> 2 ^ (w - 1) - 1
              \<Longrightarrow> to_int w val = val" for val :: int
    using to_int_id [OF assms(2), of val] by (simp add: max)
  show ?thesis
    using assms(1) by (auto simp: LookupInt_def LookupInt64_def max min id)
qed

theorem LookupInt_platform_range_witness:
  "LookupInt 64 big_config ''x'' = Inr 5000000000
   \<and> LookupInt 32 big_config ''x''
        = Inl (Errorf ''int64 value %d: %w'' [ArgD 5000000000] ErrIntegerOutOfRange)
   \<and> LookupInt64 small_config ''n'' = Inr 7"
proof -
  have "LookupInt 64 big_config ''x'' = Inr 5000000000"
    using LookupInt_platform_range [OF Lookup_big_config, of 64]
    by (simp add: NewInt64Value_def)
  moreover have "LookupInt 32 big_config ''x''
        = Inl (Errorf ''int64 value %d: %w'' [ArgD 5000000000] ErrIntegerOutOfRange)"
    using LookupInt_platform_range [OF Lookup_big_config, of 32]
    by (simp add: NewInt64Value_def)
  moreover have "LookupInt64 small_config ''n'' = Inr 7"
    using LookupInt_platform_range [OF Lookup_small_config, of 64]
    by (simp add: NewIntValue_def)
  ultimately show ?thesis by simp
qed

text \<open>
  The two things the kind of an integer literal depends on, as \<^verbatim>\<open>parseIntegerLiteral\<close>
  computes them: whether the trimmed text ends in \<^verbatim>\<open>L\<close> or \<^verbatim>\<open>l\<close>, and the number that
  \<^verbatim>\<open>strconv.ParseInt\<close> reads from the text without that suffix.
\<close>

definition literalIsLong :: "string \<Rightarrow> bool" where
  "literalIsLong s0 =
     (strings_HasSuffix (strings_TrimSpace s0) ''L'' \<or> strings_HasSuffix (strings_TrimSpace s0) ''l'')"

definition literalText :: "string \<Rightarrow> string" where
  "literalText s0 =
     (if literalIsLong s0 then take (length (strings_TrimSpace s0) - 1) (strings_TrimSpace s0)
      else strings_TrimSpace s0)"

definition literalNumber :: "string \<Rightarrow> Error + int" where
  "literalNumber s0 =
     (let s = literalText s0 in
      if strings_HasPrefix s ''0x'' \<or> strings_HasPrefix s ''0X''
        then strconv_ParseInt (drop 2 s) 16 64
      else if strings_HasPrefix s ''0b'' \<or> strings_HasPrefix s ''0B''
        then strconv_ParseInt (drop 2 s) 2 64
      else if strings_HasPrefix s ''0o'' \<or> strings_HasPrefix s ''0O''
              \<or> strings_HasPrefix s ''0q'' \<or> strings_HasPrefix s ''0Q''
        then strconv_ParseInt (drop 2 s) 8 64
      else strconv_ParseInt s 10 64)"

lemma parseIntegerLiteral_split:
  "parseIntegerLiteral w s0 =
     (case literalNumber s0 of
        Inl err \<Rightarrow> Inl (Errorf ''invalid integer literal '%s': %w'' [ArgS (literalText s0)] err)
      | Inr val \<Rightarrow>
          if literalIsLong s0 \<or> val > maxInt w \<or> val < minInt64
          then Inr (NewInt64Value val)
          else Inr (NewIntValue (to_int w val)))"
  unfolding parseIntegerLiteral_def literalNumber_def literalText_def literalIsLong_def Let_def
  by (rule refl)

lemma strconv_ParseInt_64_range:
  assumes "strconv_ParseInt s base 64 = Inr val"
  shows "- (2 ^ 63) \<le> val \<and> val \<le> 2 ^ 63 - 1"
  using assms
  by (auto simp: strconv_ParseInt_def Let_def split: if_splits sum.splits)

lemma literalNumber_range:
  assumes "literalNumber s = Inr val"
  shows "- (2 ^ 63) \<le> val \<and> val \<le> 2 ^ 63 - 1"
  using assms strconv_ParseInt_64_range
  unfolding literalNumber_def Let_def by (metis (full_types))

lemmas parseIntegerLiteral_eval = parseIntegerLiteral_def strings_TrimSpace_def
  strings_HasSuffix_def strings_HasPrefix_def strconv_ParseInt_def strconv_ParseUint_def
  asciiSpace_def thirdByteE280_def lower_def maxInt_def minInt64_def to_int_def Let_def
  ErrSyntax_def ErrRange_def

text \<open>
  C1, as stated, fails where \<^verbatim>\<open>int\<close> has 64 bits: the literal 1234567890123 has no
  suffix and a value outside the signed 32-bit range, and its kind is \<^verbatim>\<open>Int\<close>.
\<close>

theorem parseIntegerLiteral_unsuffixed_counterexample:
  "parseIntegerLiteral 64 ''1234567890123'' = Inr (NewIntValue 1234567890123)
   \<and> Type (NewIntValue 1234567890123) = TypeInt
   \<and> \<not> literalIsLong ''1234567890123''
   \<and> literalNumber ''1234567890123'' = Inr 1234567890123
   \<and> (2147483647 :: int) < 1234567890123"
  by (simp add: parseIntegerLiteral_eval literalIsLong_def literalNumber_def literalText_def
      NewIntValue_def)

text \<open>
  C1, amended. For an accepted literal with the suffix, or whose number is greater than the
  greatest \<^verbatim>\<open>int\<close> of the platform, the value has the kind \<^verbatim>\<open>Int64\<close> and holds the
  number. For an accepted literal without the suffix whose number is in the range of the
  platform's \<^verbatim>\<open>int\<close>, the value has the kind \<^verbatim>\<open>Int\<close> and holds the number. So, for a
  number that is not below the least \<^verbatim>\<open>int\<close>, the kind is \<^verbatim>\<open>Int64\<close> if and only if the
  literal has the suffix or its number is greater than the greatest \<^verbatim>\<open>int\<close>. Where
  \<^verbatim>\<open>int\<close> has 64 bits no accepted number is outside its range, and the kind is \<^verbatim>\<open>Int64\<close>
  exactly with the suffix. The statement is silent on a literal without the suffix whose
  number is below the least \<^verbatim>\<open>int\<close>.
\<close>

theorem parseIntegerLiteral_kind:
  assumes "parseIntegerLiteral w s = Inr v" and "w = 32 \<or> w = 64"
  shows "\<exists>n. literalNumber s = Inr n
     \<and> (literalIsLong s \<or> maxInt w < n \<longrightarrow> Type v = TypeInt64 \<and> Int64Val v = n)
     \<and> (\<not> literalIsLong s \<and> - (2 ^ (w - 1)) \<le> n \<and> n \<le> maxInt w
          \<longrightarrow> Type v = TypeInt \<and> IntVal v = n)
     \<and> (- (2 ^ (w - 1)) \<le> n
          \<longrightarrow> (Type v = TypeInt64 \<longleftrightarrow> literalIsLong s \<or> maxInt w < n))
     \<and> (w = 64 \<longrightarrow> - (2 ^ (w - 1)) \<le> n \<and> n \<le> maxInt w
                    \<and> (Type v = TypeInt64 \<longleftrightarrow> literalIsLong s))"
proof -
  obtain n where n: "literalNumber s = Inr n"
    using assms(1) by (cases "literalNumber s") (auto simp: parseIntegerLiteral_split)
  have range: "- (2 ^ 63) \<le> n" "n \<le> 2 ^ 63 - 1"
    using literalNumber_range [OF n] by simp_all
  then have nomin: "\<not> n < minInt64"
    by (simp add: minInt64_def)
  have v: "v = (if literalIsLong s \<or> maxInt w < n then NewInt64Value n
                else NewIntValue (to_int w n))"
    using assms(1) by (auto simp: parseIntegerLiteral_split n nomin split: if_splits)
  have long: "literalIsLong s \<or> maxInt w < n \<longrightarrow> Type v = TypeInt64 \<and> Int64Val v = n"
    by (simp add: v NewInt64Value_def)
  have short: "\<not> literalIsLong s \<and> - (2 ^ (w - 1)) \<le> n \<and> n \<le> maxInt w
          \<longrightarrow> Type v = TypeInt \<and> IntVal v = n"
    using to_int_id [OF assms(2), of n]
    by (auto simp: v NewIntValue_def)
  have kind: "- (2 ^ (w - 1)) \<le> n
          \<longrightarrow> (Type v = TypeInt64 \<longleftrightarrow> literalIsLong s \<or> maxInt w < n)"
    by (simp add: v NewInt64Value_def NewIntValue_def)
  have in64: "- (2 ^ (64 - 1)) \<le> n \<and> n \<le> maxInt 64"
    using range by (simp add: maxInt_def)
  then have w64: "w = 64 \<longrightarrow> - (2 ^ (w - 1)) \<le> n \<and> n \<le> maxInt w
                    \<and> (Type v = TypeInt64 \<longleftrightarrow> literalIsLong s)"
    by (auto simp: v NewInt64Value_def NewIntValue_def)
  show ?thesis
    using n long short kind w64 by blast
qed

theorem parseIntegerLiteral_kind_witness:
  "parseIntegerLiteral 64 ''42L'' = Inr (NewInt64Value 42)
   \<and> parseIntegerLiteral 32 ''42l'' = Inr (NewInt64Value 42)
   \<and> parseIntegerLiteral 64 ''1234567890123'' = Inr (NewIntValue 1234567890123)
   \<and> parseIntegerLiteral 32 ''1234567890123'' = Inr (NewInt64Value 1234567890123)
   \<and> parseIntegerLiteral 32 ''-7'' = Inr (NewIntValue (- 7))
   \<and> Type (NewInt64Value 42) = TypeInt64 \<and> Int64Val (NewInt64Value 42) = 42
   \<and> Type (NewInt64Value 1234567890123) = TypeInt64
   \<and> Int64Val (NewInt64Value 1234567890123) = 1234567890123
   \<and> Type (NewIntValue 1234567890123) = TypeInt
   \<and> IntVal (NewIntValue 1234567890123) = 1234567890123
   \<and> Type (NewIntValue (- 7)) = TypeInt \<and> IntVal (NewIntValue (- 7)) = - 7"
proof -
  have a: "parseIntegerLiteral 64 ''42L'' = Inr (NewInt64Value 42)"
    by (simp add: parseIntegerLiteral_eval)
  have b: "parseIntegerLiteral 32 ''42l'' = Inr (NewInt64Value 42)"
    by (simp add: parseIntegerLiteral_eval)
  have c: "parseIntegerLiteral 64 ''1234567890123'' = Inr (NewIntValue 1234567890123)"
    by (simp add: parseIntegerLiteral_eval)
  have d: "parseIntegerLiteral 32 ''1234567890123'' = Inr (NewInt64Value 1234567890123)"
    by (simp add: parseIntegerLiteral_eval)
  have e: "parseIntegerLiteral 32 ''-7'' = Inr (NewIntValue (- 7))"
    by (simp add: parseIntegerLiteral_eval)
  have long: "literalIsLong ''42L''" "literalNumber ''42L'' = Inr 42"
    by (simp_all add: parseIntegerLiteral_eval literalNumber_def literalText_def
        literalIsLong_def)
  have big: "\<not> literalIsLong ''1234567890123''"
    "literalNumber ''1234567890123'' = Inr 1234567890123"
    by (simp_all add: parseIntegerLiteral_eval literalNumber_def literalText_def
        literalIsLong_def)
  have small: "\<not> literalIsLong ''-7''" "literalNumber ''-7'' = Inr (- 7)"
    by (simp_all add: parseIntegerLiteral_eval literalNumber_def literalText_def
        literalIsLong_def)
  have f: "Type (NewInt64Value 42) = TypeInt64 \<and> Int64Val (NewInt64Value 42) = 42"
    using parseIntegerLiteral_kind [OF a] long by auto
  have g: "Type (NewInt64Value 1234567890123) = TypeInt64
      \<and> Int64Val (NewInt64Value 1234567890123) = 1234567890123"
    using parseIntegerLiteral_kind [OF d] big by (auto simp: maxInt_32_64)
  have h: "Type (NewIntValue 1234567890123) = TypeInt
      \<and> IntVal (NewIntValue 1234567890123) = 1234567890123"
    using parseIntegerLiteral_kind [OF c] big by (auto simp: maxInt_32_64)
  have i: "Type (NewIntValue (- 7)) = TypeInt \<and> IntVal (NewIntValue (- 7)) = - 7"
    using parseIntegerLiteral_kind [OF e] small by (auto simp: maxInt_32_64)
  show ?thesis
    using a b c d e f g h i by simp
qed

subsection \<open>The lexer on concrete inputs\<close>

lemma readHex_2: "readHex 2 hex l = readHex (Suc (Suc 0)) hex l"
  by (simp add: numeral_2_eq_2)

lemmas lexer_eval = NewLexer_def tokenize_def tokenize_loop.simps tokenize_switch_def
  skipWhitespace.simps skipComment_def skipLine.simps skipBlock.simps
  readString_def readString_loop.simps hexEscape_def readHex_2 readIdentifier_def
  readIdentifier_loop.simps readNumber_def readNumber_prefix_def readNumber_point_def
  readNumber_exponent_def readNumber_suffix_def readHexDigits.simps readBinDigits.simps
  readOctDigits.simps readDigits.simps append_token_def Lexer_advance_def Lexer_peek_def
  unicode_IsSpace_def unicode_IsDigit_def unicode_IsLetter_def isHexDigit_def
  WriteRune_def strings_ToLower_def char_of_def bit_Suc_0_iff Let_def
  strconv_ParseInt_def strconv_ParseUint_def lower_def ErrSyntax_def ErrRange_def

text \<open>
  C7. The escape \<^verbatim>\<open>\x41\<close> gives the one byte 0x41 and \<^verbatim>\<open>\x7F\<close> the one byte 0x7F, but
  \<^verbatim>\<open>\x80\<close> and \<^verbatim>\<open>\xFF\<close> give nothing: \<^verbatim>\<open>strconv.ParseInt(hex, 16, 8)\<close> reads a signed
  number of 8 bits and fails from 0x80 on, and the escape is dropped. The inputs are the
  settings \<^verbatim>\<open>s="\x41"\<close>, \<^verbatim>\<open>s="\x7F"\<close>, \<^verbatim>\<open>s="\x80"\<close> and \<^verbatim>\<open>s="a\xFFb"\<close>.
\<close>

theorem hex_escape_from_0x80_dropped:
  "map Token.Value (tokens (NewLexer (Some
      [CHR ''s'', CHR ''='', CHR 0x22, CHR 0x5C, CHR ''x'', CHR ''4'', CHR ''1'', CHR 0x22])))
     = [''s'', ''='', [CHR 0x41], []]
   \<and> map Token.Value (tokens (NewLexer (Some
      [CHR ''s'', CHR ''='', CHR 0x22, CHR 0x5C, CHR ''x'', CHR ''7'', CHR ''F'', CHR 0x22])))
     = [''s'', ''='', [CHR 0x7F], []]
   \<and> map Token.Value (tokens (NewLexer (Some
      [CHR ''s'', CHR ''='', CHR 0x22, CHR 0x5C, CHR ''x'', CHR ''8'', CHR ''0'', CHR 0x22])))
     = [''s'', ''='', [], []]
   \<and> map Token.Value (tokens (NewLexer (Some
      [CHR ''s'', CHR ''='', CHR 0x22, CHR ''a'', CHR 0x5C, CHR ''x'', CHR ''F'', CHR ''F'',
       CHR ''b'', CHR 0x22])))
     = [''s'', ''='', ''ab'', []]
   \<and> strconv_ParseInt ''FF'' 16 8 = Inl (NumError ''ParseInt'' ''FF'' ErrRange)"
proof -
  have 1: "map Token.Value (tokens (NewLexer (Some
      [CHR ''s'', CHR ''='', CHR 0x22, CHR 0x5C, CHR ''x'', CHR ''4'', CHR ''1'', CHR 0x22])))
     = [''s'', ''='', [CHR 0x41], []]"
    by (simp add: lexer_eval)
  have 2: "map Token.Value (tokens (NewLexer (Some
      [CHR ''s'', CHR ''='', CHR 0x22, CHR 0x5C, CHR ''x'', CHR ''7'', CHR ''F'', CHR 0x22])))
     = [''s'', ''='', [CHR 0x7F], []]"
    by (simp add: lexer_eval)
  have 3: "map Token.Value (tokens (NewLexer (Some
      [CHR ''s'', CHR ''='', CHR 0x22, CHR 0x5C, CHR ''x'', CHR ''8'', CHR ''0'', CHR 0x22])))
     = [''s'', ''='', [], []]"
    by (simp add: lexer_eval)
  have 4: "map Token.Value (tokens (NewLexer (Some
      [CHR ''s'', CHR ''='', CHR 0x22, CHR ''a'', CHR 0x5C, CHR ''x'', CHR ''F'', CHR ''F'',
       CHR ''b'', CHR 0x22])))
     = [''s'', ''='', ''ab'', []]"
    by (simp add: lexer_eval)
  have 5: "strconv_ParseInt ''FF'' 16 8 = Inl (NumError ''ParseInt'' ''FF'' ErrRange)"
    by (simp add: lexer_eval)
  show ?thesis
    using 1 2 3 4 5 by simp
qed

text \<open>
  C9. On the input \<^verbatim>\<open>a = 1\<close> the token \<^verbatim>\<open>=\<close> is the third character of the line and the
  token \<^verbatim>\<open>1\<close> the fifth, and the lexer records the columns 2 and 4, where the white space
  before them begins. On the two lines \<^verbatim>\<open>a\<close> and \<^verbatim>\<open>b\<close> the token \<^verbatim>\<open>b\<close> is the first
  character of line 2 and is recorded at line 1, column 2. The list of tokens ends with
  the one end-of-input token.
\<close>

theorem token_position_before_whitespace:
  "tokens (NewLexer (Some ''a = 1'')) =
     [\<lparr>Value = ''a'', Type = TokenIdentifier, Line = 1, Column = 1\<rparr>,
      \<lparr>Value = ''='', Type = TokenAssign, Line = 1, Column = 2\<rparr>,
      \<lparr>Value = ''1'', Type = TokenInteger, Line = 1, Column = 4\<rparr>,
      \<lparr>Value = [], Type = TokenEOF, Line = 1, Column = 5\<rparr>]
   \<and> ''a = 1'' ! 2 = CHR ''='' \<and> ''a = 1'' ! 4 = CHR ''1''
   \<and> tokens (NewLexer (Some [CHR ''a'', CHR 0x0A, CHR ''b''])) =
     [\<lparr>Value = ''a'', Type = TokenIdentifier, Line = 1, Column = 1\<rparr>,
      \<lparr>Value = ''b'', Type = TokenIdentifier, Line = 1, Column = 2\<rparr>,
      \<lparr>Value = [], Type = TokenEOF, Line = 2, Column = 1\<rparr>]"
proof -
  have 1: "tokens (NewLexer (Some ''a = 1'')) =
     [\<lparr>Value = ''a'', Type = TokenIdentifier, Line = 1, Column = 1\<rparr>,
      \<lparr>Value = ''='', Type = TokenAssign, Line = 1, Column = 2\<rparr>,
      \<lparr>Value = ''1'', Type = TokenInteger, Line = 1, Column = 4\<rparr>,
      \<lparr>Value = [], Type = TokenEOF, Line = 1, Column = 5\<rparr>]"
    by (simp add: lexer_eval)
  have 2: "tokens (NewLexer (Some [CHR ''a'', CHR 0x0A, CHR ''b''])) =
     [\<lparr>Value = ''a'', Type = TokenIdentifier, Line = 1, Column = 1\<rparr>,
      \<lparr>Value = ''b'', Type = TokenIdentifier, Line = 1, Column = 2\<rparr>,
      \<lparr>Value = [], Type = TokenEOF, Line = 2, Column = 1\<rparr>]"
    by (simp add: lexer_eval)
  show ?thesis
    using 1 2 by simp
qed

subsection \<open>The parser on tokens and on concrete inputs\<close>

lemmas parser_eval = ParseString_def Parse_def NewParser_def NewParserWithBaseDir_def
  Parser_advance_def NextToken_def Token_zero_def Parser_expect_def skipSemicolon_def
  concatStrings.simps parseValue_unfold parseGroup_unfold parseGroup_loop_unfold
  parseArray_unfold parseArray_loop_unfold parseList_unfold parseList_loop_unfold
  parseSetting_unfold parseInclude_unfold parseFileWithDepth_unfold Parser_Parse_unfold
  Parse_loop_unfold NewConfig_def Value_GroupVal_update_def mergeConfig_def

text \<open>
  The loop that joins adjacent strings, on a parser whose current token is the first of
  the string tokens \<open>strs\<close> that come before the token \<open>t\<close>, which is no string: it appends
  the values of \<open>strs\<close> in their order and stops with \<open>t\<close> as the current token.
\<close>

lemma concatStrings_tokens:
  assumes "\<forall>s \<in> set strs. Token.Type s = TokenString" and "Token.Type t \<noteq> TokenString"
    and "tokens (lexer p) = pre @ strs @ t # rest"
    and "tokenPos (lexer p) = int (length pre) + 1"
    and "current p = hd (strs @ [t])"
  shows "concatStrings v0 p =
           (v0 @ concat (map Token.Value strs),
            p\<lparr>current := t,
              lexer := (lexer p)\<lparr>tokenPos := int (length pre) + 1 + int (length strs)\<rparr>\<rparr>)"
  using assms
proof (induction strs arbitrary: v0 p pre)
  case Nil
  then show ?case
    by (subst concatStrings.simps) simp
next
  case (Cons s strs)
  let ?p = "Parser_advance p"
  have idx: "nat (int (length pre) + 1) = length pre + 1"
    by simp
  have nth: "tokens (lexer p) ! (length pre + 1) = hd (strs @ [t])"
    using Cons.prems(3) by (cases strs) (simp_all add: nth_append)
  have adv: "?p = p\<lparr>current := hd (strs @ [t]),
                   lexer := (lexer p)\<lparr>tokenPos := int (length (pre @ [s])) + 1\<rparr>\<rparr>"
    using Cons.prems(3,4) nth by (simp add: Parser_advance_def NextToken_def idx del: nat_int_add)
  have "concatStrings (v0 @ Token.Value s) ?p =
          (v0 @ Token.Value s @ concat (map Token.Value strs),
           ?p\<lparr>current := t,
              lexer := (lexer ?p)\<lparr>tokenPos := int (length (pre @ [s])) + 1 + int (length strs)\<rparr>\<rparr>)"
    using Cons.IH [of ?p "pre @ [s]" "v0 @ Token.Value s"] Cons.prems(1,2,3)
    by (simp add: adv)
  moreover have "concatStrings v0 p = concatStrings (v0 @ Token.Value s) ?p"
    using Cons.prems(1,5) by (subst concatStrings.simps) simp
  ultimately show ?case
    by (simp add: adv)
qed

text \<open>
  An environment on a platform of 64 bits that has no files, and whose
  \<^verbatim>\<open>ParseFloat\<close> reads the text \<^verbatim>\<open>2.5\<close>.
\<close>

definition example_env :: Env where
  "example_env =
     \<lparr>IntSize = 64,
      ParseFloat = (\<lambda>s. if s = ''2.5'' then Inr (5 / 2)
                         else Inl (NumError ''ParseFloat'' s ErrSyntax)),
      Stat = (\<lambda>path. False),
      Open = (\<lambda>path. Inl (PathError ''open'' path)),
      Join = (\<lambda>dir path. dir @ ''/'' @ path),
      Dir = (\<lambda>path. ''.'')\<rparr>"

text \<open>
  Two string tokens and the end of the input, with a parser on the first of them.
\<close>

definition two_strings :: Parser where
  "two_strings =
     \<lparr>lexer =
        \<lparr>tokens = [\<lparr>Value = ''a'', Type = TokenString, Line = 1, Column = 1\<rparr>,
                   \<lparr>Value = ''b'', Type = TokenString, Line = 1, Column = 4\<rparr>,
                   \<lparr>Value = [], Type = TokenEOF, Line = 1, Column = 8\<rparr>],
         input = [CHR 0x22, CHR ''a'', CHR 0x22, CHR '' '', CHR 0x22, CHR ''b'', CHR 0x22],
         pos = 6, line = 1, column = 7, tokenPos = 1, current = CHR 0x00\<rparr>,
      baseDir = [],
      current = \<lparr>Value = ''a'', Type = TokenString, Line = 1, Column = 1\<rparr>,
      includeDepth = 0\<rparr>"

text \<open>
  C5. When the current token of the parser is a string, and the string tokens \<open>strs\<close>
  follow it before the token \<open>t\<close> that is no string, \<^verbatim>\<open>parseValue\<close> gives one value
  of kind \<^verbatim>\<open>String\<close>: the values of these tokens joined in their order, with nothing
  between them, and \<open>t\<close> is the current token after it. The value of a string token is
  the text with its escapes decoded: the setting \<^verbatim>\<open>s = "a" "b" "c";\<close> gives the string
  \<^verbatim>\<open>abc\<close>, and \<^verbatim>\<open>s = "a\n" "b";\<close> the three characters a, line feed, b.
\<close>

theorem adjacent_strings_concatenate:
  "(Token.Type (current p) = TokenString \<and> (\<forall>s \<in> set strs. Token.Type s = TokenString)
      \<and> Token.Type t \<noteq> TokenString
      \<and> tokens (lexer p) = pre @ current p # strs @ t # rest
      \<and> tokenPos (lexer p) = int (length pre) + 1 \<and> 0 < n
    \<longrightarrow> parseValue n env p =
          Some (Inr (NewStringValue (concat (map Token.Value (current p # strs))),
                     p\<lparr>current := t,
                       lexer := (lexer p)\<lparr>tokenPos := int (length pre) + 2 + int (length strs)\<rparr>\<rparr>)))
   \<and> andThen (ParseString 20 env
         [CHR ''s'', CHR '' '', CHR ''='', CHR '' '', CHR 0x22, CHR ''a'', CHR 0x22, CHR '' '',
          CHR 0x22, CHR ''b'', CHR 0x22, CHR '' '', CHR 0x22, CHR ''c'', CHR 0x22, CHR '';''])
         (\<lambda>c. Some (Lookup c ''s''))
       = Some (Inr (NewStringValue ''abc''))
   \<and> andThen (ParseString 20 env
         [CHR ''s'', CHR '' '', CHR ''='', CHR '' '', CHR 0x22, CHR ''a'', CHR 0x5C, CHR ''n'',
          CHR 0x22, CHR '' '', CHR 0x22, CHR ''b'', CHR 0x22, CHR '';''])
         (\<lambda>c. Some (Lookup c ''s''))
       = Some (Inr (NewStringValue [CHR ''a'', CHR 0x0A, CHR ''b'']))"
proof -
  have general: "parseValue n env p =
          Some (Inr (NewStringValue (concat (map Token.Value (current p # strs))),
                     p\<lparr>current := t,
                       lexer := (lexer p)\<lparr>tokenPos := int (length pre) + 2 + int (length strs)\<rparr>\<rparr>))"
    if str: "Token.Type (current p) = TokenString"
      and strs: "\<forall>s \<in> set strs. Token.Type s = TokenString"
      and t: "Token.Type t \<noteq> TokenString"
      and toks: "tokens (lexer p) = pre @ current p # strs @ t # rest"
      and pos: "tokenPos (lexer p) = int (length pre) + 1" and n: "0 < n"
  proof -
    let ?p = "Parser_advance p"
    have nth: "tokens (lexer p) ! (length pre + 1) = hd (strs @ [t])"
      using toks by (cases strs) (simp_all add: nth_append)
    have idx: "nat (int (length pre) + 1) = length pre + 1"
      by simp
    have adv: "?p = p\<lparr>current := hd (strs @ [t]),
                   lexer := (lexer p)\<lparr>tokenPos := int (length (pre @ [current p])) + 1\<rparr>\<rparr>"
      using toks pos nth by (simp add: Parser_advance_def NextToken_def idx del: nat_int_add)
    have "concatStrings (Token.Value (current p)) ?p =
          (Token.Value (current p) @ concat (map Token.Value strs),
           ?p\<lparr>current := t,
              lexer := (lexer ?p)\<lparr>tokenPos := int (length (pre @ [current p])) + 1
                 + int (length strs)\<rparr>\<rparr>)"
      using strs t toks by (intro concatStrings_tokens) (simp_all add: adv)
    then show ?thesis
      using str n by (subst parseValue_unfold) (simp add: adv)
  qed
  have abc: "andThen (ParseString 20 env
         [CHR ''s'', CHR '' '', CHR ''='', CHR '' '', CHR 0x22, CHR ''a'', CHR 0x22, CHR '' '',
          CHR 0x22, CHR ''b'', CHR 0x22, CHR '' '', CHR 0x22, CHR ''c'', CHR 0x22, CHR '';''])
         (\<lambda>c. Some (Lookup c ''s''))
       = Some (Inr (NewStringValue ''abc''))"
    by (simp add: lexer_eval parser_eval Lookup_def)
  have anb: "andThen (ParseString 20 env
         [CHR ''s'', CHR '' '', CHR ''='', CHR '' '', CHR 0x22, CHR ''a'', CHR 0x5C, CHR ''n'',
          CHR 0x22, CHR '' '', CHR 0x22, CHR ''b'', CHR 0x22, CHR '';''])
         (\<lambda>c. Some (Lookup c ''s''))
       = Some (Inr (NewStringValue [CHR ''a'', CHR 0x0A, CHR ''b'']))"
    by (simp add: lexer_eval parser_eval Lookup_def)
  show ?thesis
    using general abc anb by blast
qed

theorem adjacent_strings_concatenate_witness:
  "parseValue 1 example_env two_strings =
     Some (Inr (NewStringValue ''ab'',
                two_strings\<lparr>current := \<lparr>Value = [], Type = TokenEOF, Line = 1, Column = 8\<rparr>,
                  lexer := (lexer two_strings)\<lparr>tokenPos := 3\<rparr>\<rparr>))"
  using adjacent_strings_concatenate [where p = two_strings and n = 1 and env = example_env
      and pre = "[]" and strs = "[\<lparr>Value = ''b'', Type = TokenString, Line = 1, Column = 4\<rparr>]"
      and t = "\<lparr>Value = [], Type = TokenEOF, Line = 1, Column = 8\<rparr>" and rest = "[]"]
  by (simp add: two_strings_def)

subsection \<open>Arrays\<close>

text \<open>One turn of the loop of \<^verbatim>\<open>parseArray\<close>, by the current token and the one after it.\<close>

lemma parseArray_loop_stop:
  assumes "0 < n" and "Token.Type (current p) \<noteq> TokenComma"
  shows "parseArray_loop n env firstElement elements p = Some (Inr (elements, p))"
  using assms by (subst parseArray_loop_unfold) simp

lemma parseArray_loop_trailing_comma:
  assumes "0 < n" and "Token.Type (current p) = TokenComma"
    and "Token.Type (current (Parser_advance p)) = TokenRightBracket"
  shows "parseArray_loop n env firstElement elements p = Some (Inr (elements, Parser_advance p))"
  using assms by (subst parseArray_loop_unfold) (simp add: Let_def)

lemma parseArray_loop_element:
  assumes "Token.Type (current p) = TokenComma"
    and "Token.Type (current (Parser_advance p)) \<noteq> TokenRightBracket"
  shows "parseArray_loop (Suc n) env firstElement elements p =
           andThen (parseValue n env (Parser_advance p)) (\<lambda>(element, p2).
             if Type element \<noteq> Type firstElement then
               Some (Inl (Errorf
                 ''array elements must have the same type, got %s and %s at line %d: %w''
                 [ArgVal (Type firstElement), ArgVal (Type element), ArgD (Line (current p2))]
                 ErrArrayTypeMismatch))
             else parseArray_loop n env firstElement (elements @ [element]) p2)"
proof -
  have "parseArray_loop (Suc n) env firstElement elements p =
           andThen (parseValue (Suc n - 1) env (Parser_advance p)) (\<lambda>(element, p2).
             if Type element \<noteq> Type firstElement then
               Some (Inl (Errorf
                 ''array elements must have the same type, got %s and %s at line %d: %w''
                 [ArgVal (Type firstElement), ArgVal (Type element), ArgD (Line (current p2))]
                 ErrArrayTypeMismatch))
             else parseArray_loop (Suc n - 1) env firstElement (elements @ [element]) p2)"
    using assms by (subst parseArray_loop_unfold) (simp add: Let_def)
  then show ?thesis
    unfolding diff_Suc_1 .
qed

lemma andThen_Some_Inr:
  "andThen m f = Some (Inr y) \<Longrightarrow> \<exists>x. m = Some (Inr x) \<and> f x = Some (Inr y)"
  by (cases m) (auto simp: andThen_def split: sum.splits)

lemma parseArray_loop_same_type:
  assumes "parseArray_loop n env firstElement elements p = Some (Inr (elements', p'))"
    and "\<forall>e \<in> set elements. Type e = Type firstElement"
  shows "\<forall>e \<in> set elements'. Type e = Type firstElement"
  using assms
proof (induction n arbitrary: elements p)
  case 0
  then show ?case
    by (simp add: parseArray_loop_unfold)
next
  case (Suc n)
  show ?case
  proof (cases "Token.Type (current p) = TokenComma")
    case False
    then have "elements' = elements"
      using Suc.prems(1) by (simp add: parseArray_loop_stop)
    then show ?thesis
      using Suc.prems(2) by simp
  next
    case comma: True
    show ?thesis
    proof (cases "Token.Type (current (Parser_advance p)) = TokenRightBracket")
      case True
      then have "elements' = elements"
        using Suc.prems(1) comma by (simp add: parseArray_loop_trailing_comma)
      then show ?thesis
        using Suc.prems(2) by simp
    next
      case False
      define k where "k = (\<lambda>(element, p2).
             if Type element \<noteq> Type firstElement then
               Some (Inl (Errorf
                 ''array elements must have the same type, got %s and %s at line %d: %w''
                 [ArgVal (Type firstElement), ArgVal (Type element), ArgD (Line (current p2))]
                 ErrArrayTypeMismatch))
             else parseArray_loop n env firstElement (elements @ [element]) p2)"
      have "parseArray_loop (Suc n) env firstElement elements p
              = andThen (parseValue n env (Parser_advance p)) k"
        unfolding k_def by (rule parseArray_loop_element [OF comma False])
      then have "andThen (parseValue n env (Parser_advance p)) k = Some (Inr (elements', p'))"
        using Suc.prems(1) by simp
      then obtain x where x: "k x = Some (Inr (elements', p'))"
        by (auto dest: andThen_Some_Inr)
      obtain element p2 where xe: "x = (element, p2)"
        by (cases x)
      have ty: "Type element = Type firstElement"
      proof (rule ccontr)
        assume "Type element \<noteq> Type firstElement"
        then show False
          using x by (simp add: k_def xe)
      qed
      have rec: "parseArray_loop n env firstElement (elements @ [element]) p2
                  = Some (Inr (elements', p'))"
        using x ty by (simp add: k_def xe)
      show ?thesis
        using Suc.IH [OF rec] Suc.prems(2) ty by simp
    qed
  qed
qed

lemma parseArray_begin:
  assumes "Token.Type (current p) = TokenLeftBracket"
    and "Token.Type (current (Parser_advance p)) \<noteq> TokenRightBracket"
  shows "parseArray (Suc n) env p =
           andThen (parseValue n env (Parser_advance p)) (\<lambda>(firstElement, p2).
             andThen (parseArray_loop n env firstElement [firstElement] p2) (\<lambda>(elements, p3).
               (case Parser_expect TokenRightBracket p3 of
                  Inl err \<Rightarrow> Some (Inl err)
                | Inr p4 \<Rightarrow> Some (Inr (NewArrayValue elements, p4)))))"
proof -
  have "parseArray (Suc n) env p =
           andThen (parseValue (Suc n - 1) env (Parser_advance p)) (\<lambda>(firstElement, p2).
             andThen (parseArray_loop (Suc n - 1) env firstElement [firstElement] p2)
               (\<lambda>(elements, p3).
                 (case Parser_expect TokenRightBracket p3 of
                    Inl err \<Rightarrow> Some (Inl err)
                  | Inr p4 \<Rightarrow> Some (Inr (NewArrayValue elements, p4)))))"
    using assms by (subst parseArray_unfold) (simp add: Parser_expect_def)
  then show ?thesis
    unfolding diff_Suc_1 .
qed

lemma parseArray_homogeneous:
  assumes "parseArray n env p = Some (Inr (v, p'))"
  shows "Type v = TypeArray \<and> (\<forall>e \<in> set (ArrayVal v). \<forall>e' \<in> set (ArrayVal v). Type e = Type e')"
proof (cases n)
  case 0
  then show ?thesis
    using assms by (simp add: parseArray_unfold)
next
  case (Suc m)
  have open_bracket: "Token.Type (current p) = TokenLeftBracket"
  proof (rule ccontr)
    assume "Token.Type (current p) \<noteq> TokenLeftBracket"
    then show False
      using assms Suc by (simp add: parseArray_unfold Parser_expect_def)
  qed
  show ?thesis
  proof (cases "Token.Type (current (Parser_advance p)) = TokenRightBracket")
    case True
    then have "v = NewArrayValue []"
      using assms Suc open_bracket by (simp add: parseArray_unfold Parser_expect_def)
    then show ?thesis
      by (simp add: NewArrayValue_def)
  next
    case False
    define k2 where "k2 = (\<lambda>(elements, p3).
               (case Parser_expect TokenRightBracket p3 of
                  Inl err \<Rightarrow> Some (Inl err)
                | Inr p4 \<Rightarrow> Some (Inr (NewArrayValue elements, p4))))"
    define k1 where "k1 = (\<lambda>(firstElement, p2).
             andThen (parseArray_loop m env firstElement [firstElement] p2) k2)"
    have "parseArray (Suc m) env p = andThen (parseValue m env (Parser_advance p)) k1"
      unfolding k1_def k2_def by (rule parseArray_begin [OF open_bracket False])
    then have "andThen (parseValue m env (Parser_advance p)) k1 = Some (Inr (v, p'))"
      using assms Suc by simp
    then obtain x where x: "k1 x = Some (Inr (v, p'))"
      by (auto dest: andThen_Some_Inr)
    obtain firstElement p2 where xe: "x = (firstElement, p2)"
      by (cases x)
    have "andThen (parseArray_loop m env firstElement [firstElement] p2) k2 = Some (Inr (v, p'))"
      using x by (simp add: k1_def xe)
    then obtain y where loop: "parseArray_loop m env firstElement [firstElement] p2 = Some (Inr y)"
      and y: "k2 y = Some (Inr (v, p'))"
      by (auto dest: andThen_Some_Inr)
    obtain elements p3 where ye: "y = (elements, p3)"
      by (cases y)
    have v: "v = NewArrayValue elements"
      using y by (auto simp: k2_def ye split: sum.splits)
    have "\<forall>e \<in> set elements. Type e = Type firstElement"
      using loop unfolding ye by (rule parseArray_loop_same_type) simp
    then show ?thesis
      by (simp add: v NewArrayValue_def)
  qed
qed

lemma small_literals:
  assumes "w = 32 \<or> w = 64"
  shows "parseIntegerLiteral w ''1'' = Inr (NewIntValue 1)"
    and "parseIntegerLiteral w ''2'' = Inr (NewIntValue 2)"
    and "parseIntegerLiteral w ''3'' = Inr (NewIntValue 3)"
  using assms by (auto simp: parseIntegerLiteral_eval)

text \<open>
  The elements of an array after the first, as the loop of \<^verbatim>\<open>parseArray\<close> reads them:
  each step is a comma, a token after it that is not the closing bracket, and the value
  that \<^verbatim>\<open>parseValue\<close> reads there, with the parser it leaves. The fuel goes down by one
  at each step, as in the loop.
\<close>

fun reads_elements :: "nat \<Rightarrow> Env \<Rightarrow> Parser \<Rightarrow> (Value \<times> Parser) list \<Rightarrow> bool" where
  "reads_elements n env p [] = True"
| "reads_elements 0 env p (s # steps) = False"
| "reads_elements (Suc n) env p (s # steps) =
     (Token.Type (current p) = TokenComma
      \<and> Token.Type (current (Parser_advance p)) \<noteq> TokenRightBracket
      \<and> parseValue n env (Parser_advance p) = Some (Inr s)
      \<and> reads_elements n env (snd s) steps)"

text \<open>The parser after these steps.\<close>

definition state_after :: "Parser \<Rightarrow> (Value \<times> Parser) list \<Rightarrow> Parser" where
  "state_after p steps = (if steps = [] then p else snd (last steps))"

text \<open>
  The end of an array: the closing bracket, or a comma and the closing bracket. The result
  is the parser after the bracket.
\<close>

definition array_close :: "Parser \<Rightarrow> Parser option" where
  "array_close q =
     (if Token.Type (current q) = TokenComma then
        (if Token.Type (current (Parser_advance q)) = TokenRightBracket
         then Some (Parser_advance (Parser_advance q)) else None)
      else if Token.Type (current q) = TokenRightBracket then Some (Parser_advance q)
      else None)"

text \<open>The parser at the start of a text.\<close>

definition parser_on :: "string \<Rightarrow> Parser" where
  "parser_on s = NewParser (NewLexer (Some s))"

lemma state_after_Cons: "state_after p (s # steps) = state_after (snd s) steps"
  by (simp add: state_after_def)

lemma reads_elements_append:
  "reads_elements n env p (steps @ others) =
     (reads_elements n env p steps
      \<and> reads_elements (n - length steps) env (state_after p steps) others)"
proof (induction steps arbitrary: n p)
  case Nil
  show ?case
    by (simp add: state_after_def)
next
  case (Cons s steps)
  show ?case
  proof (cases n)
    case 0
    then show ?thesis
      by simp
  next
    case (Suc m)
    show ?thesis
      unfolding Suc by (simp add: Cons.IH state_after_Cons)
  qed
qed

lemma parseArray_loop_reads:
  assumes "reads_elements n env p steps"
    and "\<forall>s \<in> set steps. Type (fst s) = Type firstElement"
  shows "parseArray_loop n env firstElement elements p =
     parseArray_loop (n - length steps) env firstElement (elements @ map fst steps)
       (state_after p steps)"
  using assms
proof (induction steps arbitrary: n p elements)
  case Nil
  show ?case
    by (simp add: state_after_def)
next
  case (Cons s steps)
  obtain m where n: "n = Suc m"
    using Cons.prems(1) by (cases n) simp_all
  obtain e p2 where s: "s = (e, p2)"
    by (cases s)
  have comma: "Token.Type (current p) = TokenComma"
    and more: "Token.Type (current (Parser_advance p)) \<noteq> TokenRightBracket"
    and element: "parseValue m env (Parser_advance p) = Some (Inr (e, p2))"
    and rest: "reads_elements m env p2 steps"
    using Cons.prems(1) unfolding n s by simp_all
  have ty: "Type e = Type firstElement"
    using Cons.prems(2) by (simp add: s)
  have same: "\<forall>s \<in> set steps. Type (fst s) = Type firstElement"
    using Cons.prems(2) by simp
  have "parseArray_loop (Suc m) env firstElement elements p =
          parseArray_loop m env firstElement (elements @ [e]) p2"
    by (simp add: parseArray_loop_element [OF comma more] element ty)
  also have "\<dots> = parseArray_loop (m - length steps) env firstElement
          ((elements @ [e]) @ map fst steps) (state_after p2 steps)"
    by (rule Cons.IH [OF rest same])
  finally show ?case
    by (simp add: n s state_after_Cons)
qed

lemma parseArray_loop_mismatch:
  assumes "reads_elements n env p (steps @ [(element, p2)])"
    and "\<forall>s \<in> set steps. Type (fst s) = Type firstElement"
    and "Type element \<noteq> Type firstElement"
  shows "parseArray_loop n env firstElement elements p =
     Some (Inl (Errorf
       ''array elements must have the same type, got %s and %s at line %d: %w''
       [ArgVal (Type firstElement), ArgVal (Type element), ArgD (Line (current p2))]
       ErrArrayTypeMismatch))"
proof -
  define q where "q = state_after p steps"
  have steps: "reads_elements n env p steps"
    and final: "reads_elements (n - length steps) env q [(element, p2)]"
    using assms(1) unfolding q_def reads_elements_append by simp_all
  obtain m where m: "n - length steps = Suc m"
    using final by (cases "n - length steps") simp_all
  have comma: "Token.Type (current q) = TokenComma"
    and more: "Token.Type (current (Parser_advance q)) \<noteq> TokenRightBracket"
    and element: "parseValue m env (Parser_advance q) = Some (Inr (element, p2))"
    using final unfolding m by simp_all
  have "parseArray_loop n env firstElement elements p =
          parseArray_loop (Suc m) env firstElement (elements @ map fst steps) q"
    using parseArray_loop_reads [OF steps assms(2)] by (simp add: m q_def)
  also have "\<dots> = Some (Inl (Errorf
       ''array elements must have the same type, got %s and %s at line %d: %w''
       [ArgVal (Type firstElement), ArgVal (Type element), ArgD (Line (current p2))]
       ErrArrayTypeMismatch))"
    by (simp add: parseArray_loop_element [OF comma more] element assms(3))
  finally show ?thesis .
qed

lemma parseArray_loop_close:
  assumes "0 < n" and "array_close q = Some pend"
  shows "andThen (parseArray_loop n env firstElement elements q) (\<lambda>(elements, p3).
           (case Parser_expect TokenRightBracket p3 of
              Inl err \<Rightarrow> Some (Inl err)
            | Inr p4 \<Rightarrow> Some (Inr (NewArrayValue elements, p4))))
         = Some (Inr (NewArrayValue elements, pend))"
proof (cases "Token.Type (current q) = TokenComma")
  case True
  then have bracket: "Token.Type (current (Parser_advance q)) = TokenRightBracket"
    and pend: "pend = Parser_advance (Parser_advance q)"
    using assms(2) by (simp_all add: array_close_def split: if_splits)
  show ?thesis
    by (simp add: parseArray_loop_trailing_comma [OF assms(1) True bracket] Parser_expect_def
        bracket pend)
next
  case False
  then have bracket: "Token.Type (current q) = TokenRightBracket"
    and pend: "pend = Parser_advance q"
    using assms(2) by (simp_all add: array_close_def split: if_splits)
  show ?thesis
    by (simp add: parseArray_loop_stop [OF assms(1) False] Parser_expect_def bracket pend)
qed

lemma parseValue_fuel: "parseValue n env p = Some r \<Longrightarrow> 0 < n"
  by (cases n) (simp_all add: parseValue_unfold)

lemma parseArray_empty:
  assumes "Token.Type (current p) = TokenLeftBracket"
    and "Token.Type (current (Parser_advance p)) = TokenRightBracket" and "0 < n"
  shows "parseArray n env p = Some (Inr (NewArrayValue [], Parser_advance (Parser_advance p)))"
  using assms by (subst parseArray_unfold) (simp add: Parser_expect_def)

lemma parseArray_same_kind:
  assumes bracket: "Token.Type (current p) = TokenLeftBracket"
    and more: "Token.Type (current (Parser_advance p)) \<noteq> TokenRightBracket"
    and first: "parseValue n env (Parser_advance p) = Some (Inr (firstElement, p1))"
    and steps: "reads_elements n env p1 steps"
    and same: "\<forall>s \<in> set steps. Type (fst s) = Type firstElement"
    and fuel: "length steps < n"
    and close: "array_close (state_after p1 steps) = Some pend"
  shows "parseArray (Suc n) env p =
     Some (Inr (NewArrayValue (firstElement # map fst steps), pend))"
proof -
  have left: "0 < n - length steps"
    using fuel by simp
  show ?thesis
    unfolding parseArray_begin [OF bracket more]
    by (simp add: first parseArray_loop_reads [OF steps same] parseArray_loop_close [OF left close])
qed

lemma parseArray_mismatch:
  assumes bracket: "Token.Type (current p) = TokenLeftBracket"
    and more: "Token.Type (current (Parser_advance p)) \<noteq> TokenRightBracket"
    and first: "parseValue n env (Parser_advance p) = Some (Inr (firstElement, p1))"
    and steps: "reads_elements n env p1 (steps @ [(element, p2)])"
    and same: "\<forall>s \<in> set steps. Type (fst s) = Type firstElement"
    and other: "Type element \<noteq> Type firstElement"
  shows "parseArray (Suc n) env p =
     Some (Inl (Errorf
       ''array elements must have the same type, got %s and %s at line %d: %w''
       [ArgVal (Type firstElement), ArgVal (Type element), ArgD (Line (current p2))]
       ErrArrayTypeMismatch))"
  unfolding parseArray_begin [OF bracket more]
  by (simp add: first parseArray_loop_mismatch [OF steps same other])

text \<open>
  C3. An array whose first element is followed by any number of elements of the kind of
  the first and then by an element of another kind fails with the error
  \<^verbatim>\<open>ErrArrayTypeMismatch\<close>, which names the two kinds and a line; so does the loop of
  \<^verbatim>\<open>parseArray\<close> at such an element. An array without elements parses to the empty
  array, an array of one element to the array of that element, and an array whose further
  elements all have the kind of the first, closed by the bracket or by a comma and the
  bracket, to the array of these elements in their order: the comma before the bracket
  adds no element. An array that \<^verbatim>\<open>parseArray\<close> returns has the kind \<^verbatim>\<open>Array\<close> and elements
  of one kind. The settings \<^verbatim>\<open>a = [1, 2.5];\<close>, \<^verbatim>\<open>a = [true, "x"];\<close> and
  \<^verbatim>\<open>a = [1, true];\<close> fail with that error; \<^verbatim>\<open>a = [1,2,3];\<close>, \<^verbatim>\<open>a = [];\<close>,
  \<^verbatim>\<open>a = [1];\<close> and \<^verbatim>\<open>a = ["a","b",];\<close> give arrays of three, of no, of one and of two
  elements.
\<close>

theorem array_elements_of_one_kind:
  assumes "IntSize env = 32 \<or> IntSize env = 64" and "ParseFloat env ''2.5'' = Inr r"
  shows \<open>(Token.Type (current p) = TokenLeftBracket
        \<and> Token.Type (current (Parser_advance p)) \<noteq> TokenRightBracket
        \<and> parseValue n env (Parser_advance p) = Some (Inr (firstElement, p1))
        \<and> reads_elements n env p1 (steps @ [(element, p2)])
        \<and> (\<forall>s \<in> set steps. Type (fst s) = Type firstElement)
        \<and> Type element \<noteq> Type firstElement
      \<longrightarrow> parseArray (Suc n) env p =
           Some (Inl (Errorf
             ''array elements must have the same type, got %s and %s at line %d: %w''
             [ArgVal (Type firstElement), ArgVal (Type element), ArgD (Line (current p2))]
             ErrArrayTypeMismatch)))
    \<and> (Token.Type (current p) = TokenComma
        \<and> Token.Type (current (Parser_advance p)) \<noteq> TokenRightBracket
        \<and> parseValue n env (Parser_advance p) = Some (Inr (element, p2))
        \<and> Type element \<noteq> Type firstElement
      \<longrightarrow> parseArray_loop (Suc n) env firstElement elements p =
           Some (Inl (Errorf
             ''array elements must have the same type, got %s and %s at line %d: %w''
             [ArgVal (Type firstElement), ArgVal (Type element), ArgD (Line (current p2))]
             ErrArrayTypeMismatch)))
    \<and> (Token.Type (current p) = TokenLeftBracket
        \<and> Token.Type (current (Parser_advance p)) = TokenRightBracket \<and> 0 < n
      \<longrightarrow> parseArray n env p =
           Some (Inr (NewArrayValue [], Parser_advance (Parser_advance p))))
    \<and> (Token.Type (current p) = TokenLeftBracket
        \<and> Token.Type (current (Parser_advance p)) \<noteq> TokenRightBracket
        \<and> parseValue n env (Parser_advance p) = Some (Inr (firstElement, p1))
        \<and> Token.Type (current p1) = TokenRightBracket
      \<longrightarrow> parseArray (Suc n) env p =
           Some (Inr (NewArrayValue [firstElement], Parser_advance p1)))
    \<and> (Token.Type (current p) = TokenLeftBracket
        \<and> Token.Type (current (Parser_advance p)) \<noteq> TokenRightBracket
        \<and> parseValue n env (Parser_advance p) = Some (Inr (firstElement, p1))
        \<and> reads_elements n env p1 steps
        \<and> (\<forall>s \<in> set steps. Type (fst s) = Type firstElement)
        \<and> length steps < n
        \<and> array_close (state_after p1 steps) = Some pend
      \<longrightarrow> parseArray (Suc n) env p =
           Some (Inr (NewArrayValue (firstElement # map fst steps), pend)))
    \<and> (parseArray n env p = Some (Inr (v, p'))
      \<longrightarrow> Type v = TypeArray
          \<and> (\<forall>e \<in> set (ArrayVal v). \<forall>e' \<in> set (ArrayVal v). Type e = Type e'))
    \<and> ParseString 30 env ''a = [1, 2.5];'' =
        Some (Inl (Errorf
          ''array elements must have the same type, got %s and %s at line %d: %w''
          [ArgVal TypeInt, ArgVal TypeFloat, ArgD 1] ErrArrayTypeMismatch))
    \<and> ParseString 30 env ''a = [true, "x"];'' =
        Some (Inl (Errorf
          ''array elements must have the same type, got %s and %s at line %d: %w''
          [ArgVal TypeBool, ArgVal TypeString, ArgD 1] ErrArrayTypeMismatch))
    \<and> ParseString 30 env ''a = [1, true];'' =
        Some (Inl (Errorf
          ''array elements must have the same type, got %s and %s at line %d: %w''
          [ArgVal TypeInt, ArgVal TypeBool, ArgD 1] ErrArrayTypeMismatch))
    \<and> andThen (ParseString 30 env ''a = [1,2,3];'') (\<lambda>c. Some (Lookup c ''a''))
        = Some (Inr (NewArrayValue [NewIntValue 1, NewIntValue 2, NewIntValue 3]))
    \<and> andThen (ParseString 30 env ''a = [];'') (\<lambda>c. Some (Lookup c ''a''))
        = Some (Inr (NewArrayValue []))
    \<and> andThen (ParseString 30 env ''a = [1];'') (\<lambda>c. Some (Lookup c ''a''))
        = Some (Inr (NewArrayValue [NewIntValue 1]))
    \<and> andThen (ParseString 30 env ''a = ["a","b",];'') (\<lambda>c. Some (Lookup c ''a''))
        = Some (Inr (NewArrayValue [NewStringValue ''a'', NewStringValue ''b'']))\<close>
proof -
  note lits = small_literals [OF assms(1)]
  have mismatch: "parseArray (Suc n) env p =
           Some (Inl (Errorf
             ''array elements must have the same type, got %s and %s at line %d: %w''
             [ArgVal (Type firstElement), ArgVal (Type element), ArgD (Line (current p2))]
             ErrArrayTypeMismatch))"
    if "Token.Type (current p) = TokenLeftBracket"
      and "Token.Type (current (Parser_advance p)) \<noteq> TokenRightBracket"
      and "parseValue n env (Parser_advance p) = Some (Inr (firstElement, p1))"
      and "reads_elements n env p1 (steps @ [(element, p2)])"
      and "\<forall>s \<in> set steps. Type (fst s) = Type firstElement"
      and "Type element \<noteq> Type firstElement"
    using that by (rule parseArray_mismatch)
  have turn: "parseArray_loop (Suc n) env firstElement elements p =
           Some (Inl (Errorf
             ''array elements must have the same type, got %s and %s at line %d: %w''
             [ArgVal (Type firstElement), ArgVal (Type element), ArgD (Line (current p2))]
             ErrArrayTypeMismatch))"
    if "Token.Type (current p) = TokenComma"
      and "Token.Type (current (Parser_advance p)) \<noteq> TokenRightBracket"
      and "parseValue n env (Parser_advance p) = Some (Inr (element, p2))"
      and "Type element \<noteq> Type firstElement"
    using that by (simp add: parseArray_loop_element)
  have none: "parseArray n env p =
           Some (Inr (NewArrayValue [], Parser_advance (Parser_advance p)))"
    if "Token.Type (current p) = TokenLeftBracket"
      and "Token.Type (current (Parser_advance p)) = TokenRightBracket" and "0 < n"
    using that by (rule parseArray_empty)
  have one: "parseArray (Suc n) env p =
           Some (Inr (NewArrayValue [firstElement], Parser_advance p1))"
    if bracket: "Token.Type (current p) = TokenLeftBracket"
      and further: "Token.Type (current (Parser_advance p)) \<noteq> TokenRightBracket"
      and first: "parseValue n env (Parser_advance p) = Some (Inr (firstElement, p1))"
      and closing: "Token.Type (current p1) = TokenRightBracket"
  proof -
    have "0 < n"
      using first by (rule parseValue_fuel)
    then show ?thesis
      using parseArray_same_kind [OF bracket further first, of "[]" "Parser_advance p1"] closing
      by (simp add: state_after_def array_close_def)
  qed
  have same: "parseArray (Suc n) env p =
           Some (Inr (NewArrayValue (firstElement # map fst steps), pend))"
    if "Token.Type (current p) = TokenLeftBracket"
      and "Token.Type (current (Parser_advance p)) \<noteq> TokenRightBracket"
      and "parseValue n env (Parser_advance p) = Some (Inr (firstElement, p1))"
      and "reads_elements n env p1 steps"
      and "\<forall>s \<in> set steps. Type (fst s) = Type firstElement"
      and "length steps < n"
      and "array_close (state_after p1 steps) = Some pend"
    using that by (rule parseArray_same_kind)
  have e1: "ParseString 30 env ''a = [1, 2.5];'' =
        Some (Inl (Errorf
          ''array elements must have the same type, got %s and %s at line %d: %w''
          [ArgVal TypeInt, ArgVal TypeFloat, ArgD 1] ErrArrayTypeMismatch))"
    by (simp add: lexer_eval parser_eval lits assms(2) NewIntValue_def NewFloatValue_def)
  have e2: \<open>ParseString 30 env ''a = [true, "x"];'' =
        Some (Inl (Errorf
          ''array elements must have the same type, got %s and %s at line %d: %w''
          [ArgVal TypeBool, ArgVal TypeString, ArgD 1] ErrArrayTypeMismatch))\<close>
    by (simp add: lexer_eval parser_eval NewBoolValue_def NewStringValue_def)
  have e3: "ParseString 30 env ''a = [1, true];'' =
        Some (Inl (Errorf
          ''array elements must have the same type, got %s and %s at line %d: %w''
          [ArgVal TypeInt, ArgVal TypeBool, ArgD 1] ErrArrayTypeMismatch))"
    by (simp add: lexer_eval parser_eval lits NewIntValue_def NewBoolValue_def)
  have s1: "andThen (ParseString 30 env ''a = [1,2,3];'') (\<lambda>c. Some (Lookup c ''a''))
        = Some (Inr (NewArrayValue [NewIntValue 1, NewIntValue 2, NewIntValue 3]))"
    by (simp add: lexer_eval parser_eval lits NewIntValue_def Lookup_def NewArrayValue_def)
  have s2: "andThen (ParseString 30 env ''a = [];'') (\<lambda>c. Some (Lookup c ''a''))
        = Some (Inr (NewArrayValue []))"
    by (simp add: lexer_eval parser_eval Lookup_def NewArrayValue_def)
  have s3: "andThen (ParseString 30 env ''a = [1];'') (\<lambda>c. Some (Lookup c ''a''))
        = Some (Inr (NewArrayValue [NewIntValue 1]))"
    by (simp add: lexer_eval parser_eval lits NewIntValue_def Lookup_def NewArrayValue_def)
  have s4: \<open>andThen (ParseString 30 env ''a = ["a","b",];'') (\<lambda>c. Some (Lookup c ''a''))
        = Some (Inr (NewArrayValue [NewStringValue ''a'', NewStringValue ''b'']))\<close>
    by (simp add: lexer_eval parser_eval Lookup_def NewArrayValue_def NewStringValue_def)
  show ?thesis
    using mismatch turn none one same parseArray_homogeneous [of n env p v p']
      e1 e2 e3 s1 s2 s3 s4
    by blast
qed

theorem array_elements_of_one_kind_witness:
  \<open>parseArray 3 example_env (parser_on ''[1,true]'') =
     Some (Inl (Errorf
       ''array elements must have the same type, got %s and %s at line %d: %w''
       [ArgVal TypeInt, ArgVal TypeBool, ArgD 1] ErrArrayTypeMismatch))
   \<and> parseArray_loop 2 example_env (NewIntValue 1) [NewIntValue 1]
        (Parser_advance (Parser_advance (parser_on ''[1,true]''))) =
     Some (Inl (Errorf
       ''array elements must have the same type, got %s and %s at line %d: %w''
       [ArgVal TypeInt, ArgVal TypeBool, ArgD 1] ErrArrayTypeMismatch))
   \<and> andThen (parseArray 1 example_env (parser_on ''[]'')) (\<lambda>(v, p'). Some (Inr v))
        = Some (Inr (NewArrayValue []))
   \<and> andThen (parseArray 2 example_env (parser_on ''[1]'')) (\<lambda>(v, p'). Some (Inr v))
        = Some (Inr (NewArrayValue [NewIntValue 1]))
   \<and> andThen (parseArray 3 example_env (parser_on ''[1,2,]'')) (\<lambda>(v, p'). Some (Inr v))
        = Some (Inr (NewArrayValue [NewIntValue 1, NewIntValue 2]))
   \<and> Type (NewArrayValue [NewIntValue 1, NewIntValue 2]) = TypeArray
   \<and> ParseString 30 example_env ''a = [1, 2.5];'' =
        Some (Inl (Errorf
          ''array elements must have the same type, got %s and %s at line %d: %w''
          [ArgVal TypeInt, ArgVal TypeFloat, ArgD 1] ErrArrayTypeMismatch))
   \<and> andThen (ParseString 30 example_env ''a = [1];'') (\<lambda>c. Some (Lookup c ''a''))
        = Some (Inr (NewArrayValue [NewIntValue 1]))
   \<and> andThen (ParseString 30 example_env ''a = ["a","b",];'') (\<lambda>c. Some (Lookup c ''a''))
        = Some (Inr (NewArrayValue [NewStringValue ''a'', NewStringValue ''b'']))\<close>
proof -
  have env: "IntSize example_env = 32 \<or> IntSize example_env = 64"
    "ParseFloat example_env ''2.5'' = Inr (5 / 2)"
    by (simp_all add: example_env_def)
  have size: "IntSize example_env = 64"
    by (simp add: example_env_def)
  note eval = parser_eval parseIntegerLiteral_eval size NewIntValue_def NewBoolValue_def
  have mixed: "parser_on ''[1,true]'' =
    \<lparr>lexer =
       \<lparr>tokens =
          [\<lparr>Value = ''['', Type = TokenLeftBracket, Line = 1, Column = 1\<rparr>,
           \<lparr>Value = ''1'', Type = TokenInteger, Line = 1, Column = 2\<rparr>,
           \<lparr>Value = '','', Type = TokenComma, Line = 1, Column = 3\<rparr>,
           \<lparr>Value = ''true'', Type = TokenBoolean, Line = 1, Column = 4\<rparr>,
           \<lparr>Value = '']'', Type = TokenRightBracket, Line = 1, Column = 8\<rparr>,
           \<lparr>Value = [], Type = TokenEOF, Line = 1, Column = 8\<rparr>],
        input = ''[1,true]'', pos = 7, line = 1, column = 8, tokenPos = 1,
        current = CHR 0x00\<rparr>,
     baseDir = [],
     current = \<lparr>Value = ''['', Type = TokenLeftBracket, Line = 1, Column = 1\<rparr>,
     includeDepth = 0\<rparr>"
    by (simp add: parser_on_def lexer_eval parser_eval)
  have empty: "parser_on ''[]'' =
    \<lparr>lexer =
       \<lparr>tokens =
          [\<lparr>Value = ''['', Type = TokenLeftBracket, Line = 1, Column = 1\<rparr>,
           \<lparr>Value = '']'', Type = TokenRightBracket, Line = 1, Column = 2\<rparr>,
           \<lparr>Value = [], Type = TokenEOF, Line = 1, Column = 2\<rparr>],
        input = ''[]'', pos = 1, line = 1, column = 2, tokenPos = 1,
        current = CHR 0x00\<rparr>,
     baseDir = [],
     current = \<lparr>Value = ''['', Type = TokenLeftBracket, Line = 1, Column = 1\<rparr>,
     includeDepth = 0\<rparr>"
    by (simp add: parser_on_def lexer_eval parser_eval)
  have single: "parser_on ''[1]'' =
    \<lparr>lexer =
       \<lparr>tokens =
          [\<lparr>Value = ''['', Type = TokenLeftBracket, Line = 1, Column = 1\<rparr>,
           \<lparr>Value = ''1'', Type = TokenInteger, Line = 1, Column = 2\<rparr>,
           \<lparr>Value = '']'', Type = TokenRightBracket, Line = 1, Column = 3\<rparr>,
           \<lparr>Value = [], Type = TokenEOF, Line = 1, Column = 3\<rparr>],
        input = ''[1]'', pos = 2, line = 1, column = 3, tokenPos = 1,
        current = CHR 0x00\<rparr>,
     baseDir = [],
     current = \<lparr>Value = ''['', Type = TokenLeftBracket, Line = 1, Column = 1\<rparr>,
     includeDepth = 0\<rparr>"
    by (simp add: parser_on_def lexer_eval parser_eval)
  have pair: "parser_on ''[1,2,]'' =
    \<lparr>lexer =
       \<lparr>tokens =
          [\<lparr>Value = ''['', Type = TokenLeftBracket, Line = 1, Column = 1\<rparr>,
           \<lparr>Value = ''1'', Type = TokenInteger, Line = 1, Column = 2\<rparr>,
           \<lparr>Value = '','', Type = TokenComma, Line = 1, Column = 3\<rparr>,
           \<lparr>Value = ''2'', Type = TokenInteger, Line = 1, Column = 4\<rparr>,
           \<lparr>Value = '','', Type = TokenComma, Line = 1, Column = 5\<rparr>,
           \<lparr>Value = '']'', Type = TokenRightBracket, Line = 1, Column = 6\<rparr>,
           \<lparr>Value = [], Type = TokenEOF, Line = 1, Column = 6\<rparr>],
        input = ''[1,2,]'', pos = 5, line = 1, column = 6, tokenPos = 1,
        current = CHR 0x00\<rparr>,
     baseDir = [],
     current = \<lparr>Value = ''['', Type = TokenLeftBracket, Line = 1, Column = 1\<rparr>,
     includeDepth = 0\<rparr>"
    by (simp add: parser_on_def lexer_eval parser_eval)
  define m1 where "m1 = Parser_advance (Parser_advance (parser_on ''[1,true]''))"
  define m2 where "m2 = Parser_advance (Parser_advance m1)"
  have m: "Token.Type (current (parser_on ''[1,true]'')) = TokenLeftBracket"
    "Token.Type (current (Parser_advance (parser_on ''[1,true]''))) \<noteq> TokenRightBracket"
    "parseValue 2 example_env (Parser_advance (parser_on ''[1,true]''))
       = Some (Inr (NewIntValue 1, m1))"
    "Token.Type (current m1) = TokenComma"
    "Token.Type (current (Parser_advance m1)) \<noteq> TokenRightBracket"
    "parseValue 1 example_env (Parser_advance m1) = Some (Inr (NewBoolValue True, m2))"
    "Type (NewBoolValue True) \<noteq> Type (NewIntValue 1)"
    "Line (current m2) = 1"
    by (simp_all add: m1_def m2_def mixed eval)
  have w1: "parseArray 3 example_env (parser_on ''[1,true]'') =
     Some (Inl (Errorf
       ''array elements must have the same type, got %s and %s at line %d: %w''
       [ArgVal TypeInt, ArgVal TypeBool, ArgD 1] ErrArrayTypeMismatch))"
    using array_elements_of_one_kind [OF env,
        where p = "parser_on ''[1,true]''" and n = 2 and firstElement = "NewIntValue 1"
        and ?p1.0 = m1 and steps = "[]" and element = "NewBoolValue True" and ?p2.0 = m2,
        THEN conjunct1] m
    by (simp add: numeral_2_eq_2 numeral_3_eq_3 NewIntValue_def NewBoolValue_def)
  have w2: "parseArray_loop 2 example_env (NewIntValue 1) [NewIntValue 1] m1 =
     Some (Inl (Errorf
       ''array elements must have the same type, got %s and %s at line %d: %w''
       [ArgVal TypeInt, ArgVal TypeBool, ArgD 1] ErrArrayTypeMismatch))"
    using array_elements_of_one_kind [OF env,
        where p = m1 and n = 1 and firstElement = "NewIntValue 1"
        and element = "NewBoolValue True" and ?p2.0 = m2 and elements = "[NewIntValue 1]",
        THEN conjunct2, THEN conjunct1] m
    by (simp add: numeral_2_eq_2 numeral_3_eq_3 NewIntValue_def NewBoolValue_def)
  have w3: "andThen (parseArray 1 example_env (parser_on ''[]'')) (\<lambda>(v, p'). Some (Inr v))
        = Some (Inr (NewArrayValue []))"
    using array_elements_of_one_kind [OF env,
        where p = "parser_on ''[]''" and n = 1,
        THEN conjunct2, THEN conjunct2, THEN conjunct1]
    by (simp add: empty eval)
  define s1 where "s1 = Parser_advance (Parser_advance (parser_on ''[1]''))"
  have s: "Token.Type (current (parser_on ''[1]'')) = TokenLeftBracket"
    "Token.Type (current (Parser_advance (parser_on ''[1]''))) \<noteq> TokenRightBracket"
    "parseValue 1 example_env (Parser_advance (parser_on ''[1]''))
       = Some (Inr (NewIntValue 1, s1))"
    "Token.Type (current s1) = TokenRightBracket"
    by (simp_all add: s1_def single eval)
  have w4: "andThen (parseArray 2 example_env (parser_on ''[1]'')) (\<lambda>(v, p'). Some (Inr v))
        = Some (Inr (NewArrayValue [NewIntValue 1]))"
    using array_elements_of_one_kind [OF env,
        where p = "parser_on ''[1]''" and n = 1 and firstElement = "NewIntValue 1"
        and ?p1.0 = s1,
        THEN conjunct2, THEN conjunct2, THEN conjunct2, THEN conjunct1] s
    by (simp add: numeral_2_eq_2 numeral_3_eq_3)
  define t1 where "t1 = Parser_advance (Parser_advance (parser_on ''[1,2,]''))"
  define t2 where "t2 = Parser_advance (Parser_advance t1)"
  have t: "Token.Type (current (parser_on ''[1,2,]'')) = TokenLeftBracket"
    "Token.Type (current (Parser_advance (parser_on ''[1,2,]''))) \<noteq> TokenRightBracket"
    "parseValue 2 example_env (Parser_advance (parser_on ''[1,2,]''))
       = Some (Inr (NewIntValue 1, t1))"
    "Token.Type (current t1) = TokenComma"
    "Token.Type (current (Parser_advance t1)) \<noteq> TokenRightBracket"
    "parseValue 1 example_env (Parser_advance t1) = Some (Inr (NewIntValue 2, t2))"
    "Type (NewIntValue 2) = Type (NewIntValue 1)"
    "array_close t2 = Some (Parser_advance (Parser_advance t2))"
    by (simp_all add: t1_def t2_def pair eval array_close_def)
  have w5: "parseArray 3 example_env (parser_on ''[1,2,]'')
        = Some (Inr (NewArrayValue [NewIntValue 1, NewIntValue 2],
                     Parser_advance (Parser_advance t2)))"
    using array_elements_of_one_kind [OF env,
        where p = "parser_on ''[1,2,]''" and n = 2 and firstElement = "NewIntValue 1"
        and ?p1.0 = t1 and steps = "[(NewIntValue 2, t2)]"
        and pend = "Parser_advance (Parser_advance t2)",
        THEN conjunct2, THEN conjunct2, THEN conjunct2, THEN conjunct2, THEN conjunct1] t
    by (simp add: numeral_2_eq_2 numeral_3_eq_3 state_after_def)
  have w6: "Type (NewArrayValue [NewIntValue 1, NewIntValue 2]) = TypeArray"
    using w5 array_elements_of_one_kind [OF env,
        where p = "parser_on ''[1,2,]''" and n = 3
        and v = "NewArrayValue [NewIntValue 1, NewIntValue 2]"
        and p' = "Parser_advance (Parser_advance t2)",
        THEN conjunct2, THEN conjunct2, THEN conjunct2, THEN conjunct2, THEN conjunct2, THEN conjunct1]
    by simp
  note examples = array_elements_of_one_kind [OF env, THEN conjunct2, THEN conjunct2,
      THEN conjunct2, THEN conjunct2, THEN conjunct2, THEN conjunct2]
  show ?thesis
    using w1 w2 w3 w4 w5 w6 examples
    by (simp add: m1_def)
qed

subsection \<open>Integer literals in settings\<close>

lemma base_literals:
  assumes "w = 32 \<or> w = 64"
  shows "parseIntegerLiteral w ''0xFF'' = Inr (NewIntValue 255)"
    and "parseIntegerLiteral w ''0XFF'' = Inr (NewIntValue 255)"
    and "parseIntegerLiteral w ''0xff'' = Inr (NewIntValue 255)"
    and "parseIntegerLiteral w ''0Xff'' = Inr (NewIntValue 255)"
    and "parseIntegerLiteral w ''0xFf'' = Inr (NewIntValue 255)"
    and "parseIntegerLiteral w ''0XfF'' = Inr (NewIntValue 255)"
    and "parseIntegerLiteral w ''0b1010'' = Inr (NewIntValue 10)"
    and "parseIntegerLiteral w ''0B1010'' = Inr (NewIntValue 10)"
    and "parseIntegerLiteral w ''0o755'' = Inr (NewIntValue 493)"
    and "parseIntegerLiteral w ''0O755'' = Inr (NewIntValue 493)"
    and "parseIntegerLiteral w ''0q755'' = Inr (NewIntValue 493)"
    and "parseIntegerLiteral w ''0Q755'' = Inr (NewIntValue 493)"
  using assms by (auto simp: parseIntegerLiteral_eval)

text \<open>
  C6. The settings that assign \<^verbatim>\<open>0xFF\<close>, \<^verbatim>\<open>0b1010\<close> and \<^verbatim>\<open>0o755\<close>, with the prefix
  and the hexadecimal digits in either case and with \<^verbatim>\<open>q\<close> for \<^verbatim>\<open>o\<close>, parse to the
  integers 255, 10 and 493.
\<close>

theorem numeric_base_prefixes:
  assumes "IntSize env = 32 \<or> IntSize env = 64"
  shows "andThen (ParseString 20 env ''v = 0xFF;'') (\<lambda>c. Some (Lookup c ''v''))
           = Some (Inr (NewIntValue 255))
    \<and> andThen (ParseString 20 env ''v = 0XFF;'') (\<lambda>c. Some (Lookup c ''v''))
           = Some (Inr (NewIntValue 255))
    \<and> andThen (ParseString 20 env ''v = 0xff;'') (\<lambda>c. Some (Lookup c ''v''))
           = Some (Inr (NewIntValue 255))
    \<and> andThen (ParseString 20 env ''v = 0Xff;'') (\<lambda>c. Some (Lookup c ''v''))
           = Some (Inr (NewIntValue 255))
    \<and> andThen (ParseString 20 env ''v = 0xFf;'') (\<lambda>c. Some (Lookup c ''v''))
           = Some (Inr (NewIntValue 255))
    \<and> andThen (ParseString 20 env ''v = 0XfF;'') (\<lambda>c. Some (Lookup c ''v''))
           = Some (Inr (NewIntValue 255))
    \<and> andThen (ParseString 20 env ''v = 0b1010;'') (\<lambda>c. Some (Lookup c ''v''))
           = Some (Inr (NewIntValue 10))
    \<and> andThen (ParseString 20 env ''v = 0B1010;'') (\<lambda>c. Some (Lookup c ''v''))
           = Some (Inr (NewIntValue 10))
    \<and> andThen (ParseString 20 env ''v = 0o755;'') (\<lambda>c. Some (Lookup c ''v''))
           = Some (Inr (NewIntValue 493))
    \<and> andThen (ParseString 20 env ''v = 0O755;'') (\<lambda>c. Some (Lookup c ''v''))
           = Some (Inr (NewIntValue 493))
    \<and> andThen (ParseString 20 env ''v = 0q755;'') (\<lambda>c. Some (Lookup c ''v''))
           = Some (Inr (NewIntValue 493))
    \<and> andThen (ParseString 20 env ''v = 0Q755;'') (\<lambda>c. Some (Lookup c ''v''))
           = Some (Inr (NewIntValue 493))"
proof -
  note lits = base_literals [OF assms]
  note eval = lexer_eval parser_eval lits NewIntValue_def Lookup_def
  have 1: "andThen (ParseString 20 env ''v = 0xFF;'') (\<lambda>c. Some (Lookup c ''v''))
           = Some (Inr (NewIntValue 255))"
    by (simp add: eval)
  have 2: "andThen (ParseString 20 env ''v = 0XFF;'') (\<lambda>c. Some (Lookup c ''v''))
           = Some (Inr (NewIntValue 255))"
    by (simp add: eval)
  have 3: "andThen (ParseString 20 env ''v = 0xff;'') (\<lambda>c. Some (Lookup c ''v''))
           = Some (Inr (NewIntValue 255))"
    by (simp add: eval)
  have 4: "andThen (ParseString 20 env ''v = 0Xff;'') (\<lambda>c. Some (Lookup c ''v''))
           = Some (Inr (NewIntValue 255))"
    by (simp add: eval)
  have 5: "andThen (ParseString 20 env ''v = 0xFf;'') (\<lambda>c. Some (Lookup c ''v''))
           = Some (Inr (NewIntValue 255))"
    by (simp add: eval)
  have 6: "andThen (ParseString 20 env ''v = 0XfF;'') (\<lambda>c. Some (Lookup c ''v''))
           = Some (Inr (NewIntValue 255))"
    by (simp add: eval)
  have 7: "andThen (ParseString 20 env ''v = 0b1010;'') (\<lambda>c. Some (Lookup c ''v''))
           = Some (Inr (NewIntValue 10))"
    by (simp add: eval)
  have 8: "andThen (ParseString 20 env ''v = 0B1010;'') (\<lambda>c. Some (Lookup c ''v''))
           = Some (Inr (NewIntValue 10))"
    by (simp add: eval)
  have 9: "andThen (ParseString 20 env ''v = 0o755;'') (\<lambda>c. Some (Lookup c ''v''))
           = Some (Inr (NewIntValue 493))"
    by (simp add: eval)
  have 10: "andThen (ParseString 20 env ''v = 0O755;'') (\<lambda>c. Some (Lookup c ''v''))
           = Some (Inr (NewIntValue 493))"
    by (simp add: eval)
  have 11: "andThen (ParseString 20 env ''v = 0q755;'') (\<lambda>c. Some (Lookup c ''v''))
           = Some (Inr (NewIntValue 493))"
    by (simp add: eval)
  have 12: "andThen (ParseString 20 env ''v = 0Q755;'') (\<lambda>c. Some (Lookup c ''v''))
           = Some (Inr (NewIntValue 493))"
    by (simp add: eval)
  show ?thesis
    using 1 2 3 4 5 6 7 8 9 10 11 12 by simp
qed

theorem numeric_base_prefixes_witness:
  "andThen (ParseString 20 example_env ''v = 0xFF;'') (\<lambda>c. Some (Lookup c ''v''))
           = Some (Inr (NewIntValue 255))
    \<and> andThen (ParseString 20 example_env ''v = 0B1010;'') (\<lambda>c. Some (Lookup c ''v''))
           = Some (Inr (NewIntValue 10))
    \<and> andThen (ParseString 20 example_env ''v = 0q755;'') (\<lambda>c. Some (Lookup c ''v''))
           = Some (Inr (NewIntValue 493))"
proof -
  have "IntSize example_env = 32 \<or> IntSize example_env = 64"
    by (simp add: example_env_def)
  from numeric_base_prefixes [OF this] show ?thesis
    by simp
qed

subsection \<open>Negative literals with a base prefix\<close>

definition basePrefixLetter :: "char \<Rightarrow> bool" where
  "basePrefixLetter c = (c = CHR ''x'' \<or> c = CHR ''X'' \<or> c = CHR ''b'' \<or> c = CHR ''B''
      \<or> c = CHR ''o'' \<or> c = CHR ''O'' \<or> c = CHR ''q'' \<or> c = CHR ''Q'')"

lemma dropSpace_minus: "dropSpace (CHR ''-'' # xs) = CHR ''-'' # xs"
  by (simp add: asciiSpace_def split: list.splits)

lemma dropSpaceRev_space: "asciiSpace b \<Longrightarrow> dropSpaceRev (b # rest) = dropSpaceRev rest"
  by simp

lemma dropSpaceRev_cons3:
  "\<not> asciiSpace b \<Longrightarrow> dropSpaceRev (b # a # a' # rest') =
     (if a = CHR 0xC2 \<and> (b = CHR 0x85 \<or> b = CHR 0xA0) then dropSpaceRev (a' # rest')
      else if (a' = CHR 0xE1 \<and> a = CHR 0x9A \<and> b = CHR 0x80)
               \<or> (a' = CHR 0xE2 \<and> a = CHR 0x80 \<and> thirdByteE280 b)
               \<or> (a' = CHR 0xE2 \<and> a = CHR 0x81 \<and> b = CHR 0x9F)
               \<or> (a' = CHR 0xE3 \<and> a = CHR 0x80 \<and> b = CHR 0x80)
      then dropSpaceRev rest' else b # a # a' # rest')"
  by (simp only: dropSpaceRev.simps(2) [of b "a # a' # rest'"] list.case if_False)

lemma dropSpaceRev_cons2:
  "\<not> asciiSpace b \<Longrightarrow> dropSpaceRev [b, a] =
     (if a = CHR 0xC2 \<and> (b = CHR 0x85 \<or> b = CHR 0xA0) then dropSpaceRev [] else [b, a])"
  by (simp only: dropSpaceRev.simps(2) [of b "[a]"] list.case if_False)

lemma dropSpaceRev_cons1: "\<not> asciiSpace b \<Longrightarrow> dropSpaceRev [b] = [b]"
  by (simp only: dropSpaceRev.simps(2) [of b "[]"] list.case if_False)

lemma basePrefixLetter_plain:
  assumes "basePrefixLetter c"
  shows "\<not> asciiSpace c" "c \<noteq> CHR 0xC2" "c \<noteq> CHR 0x85" "c \<noteq> CHR 0xA0" "c \<noteq> CHR 0x9A"
    "c \<noteq> CHR 0x80" "c \<noteq> CHR 0x81" "c \<noteq> CHR 0x9F" "c \<noteq> CHR 0xE1" "c \<noteq> CHR 0xE2"
    "c \<noteq> CHR 0xE3" "\<not> thirdByteE280 c"
  using assms by (auto simp: basePrefixLetter_def asciiSpace_def thirdByteE280_def)
lemma dropSpaceRev_keeps:
  assumes c: "basePrefixLetter c"
  shows "\<exists>ys. dropSpaceRev (xs @ c # t) = ys @ c # t"
proof (induction xs rule: length_induct)
  case (1 xs)
  note plain = basePrefixLetter_plain [OF c]
  have IH: "\<exists>ys. dropSpaceRev (zs @ c # t) = ys @ c # t" if "length zs < length xs" for zs
    using 1 that by blast
  have whole: "\<exists>ys. dropSpaceRev (xs @ c # t) = ys @ c # t"
    if "dropSpaceRev (xs @ c # t) = xs @ c # t"
    using that by blast
  show ?case
  proof (cases xs)
    case Nil
    have "dropSpaceRev (c # t) = c # t"
    proof (cases t)
      case Nil
      then show ?thesis
        by (simp only: dropSpaceRev_cons1 [OF plain(1)])
    next
      case t: (Cons a t')
      show ?thesis
      proof (cases t')
        case Nil
        then show ?thesis
          unfolding t by (simp add: dropSpaceRev_cons2 [OF plain(1)] plain del: dropSpaceRev.simps)
      next
        case (Cons a' rest')
        then show ?thesis
          unfolding t by (simp add: dropSpaceRev_cons3 [OF plain(1)] plain del: dropSpaceRev.simps)
      qed
    qed
    then show ?thesis
      using Nil by simp
  next
    case xs: (Cons x xs')
    show ?thesis
    proof (cases "asciiSpace x")
      case True
      have "dropSpaceRev (xs @ c # t) = dropSpaceRev (xs' @ c # t)"
        unfolding xs using dropSpaceRev_space [OF True] by simp
      then show ?thesis
        using IH [of xs'] xs by simp
    next
      case nospace: False
      show ?thesis
      proof (cases xs')
        case Nil
        have "dropSpaceRev (x # c # t) = x # c # t"
        proof (cases t)
          case Nil
          then show ?thesis
            by (simp add: dropSpaceRev_cons2 [OF nospace] plain del: dropSpaceRev.simps)
        next
          case (Cons a' rest')
          then show ?thesis
            by (simp add: dropSpaceRev_cons3 [OF nospace] plain del: dropSpaceRev.simps)
        qed
        then show ?thesis
          using xs Nil by (intro whole) simp
      next
        case xs': (Cons y xs'')
        obtain a' rest' where rest: "xs'' @ c # t = a' # rest'"
          by (cases xs'') auto
        have step: "dropSpaceRev (xs @ c # t) =
           (if y = CHR 0xC2 \<and> (x = CHR 0x85 \<or> x = CHR 0xA0) then dropSpaceRev (xs'' @ c # t)
            else if (a' = CHR 0xE1 \<and> y = CHR 0x9A \<and> x = CHR 0x80)
               \<or> (a' = CHR 0xE2 \<and> y = CHR 0x80 \<and> thirdByteE280 x)
               \<or> (a' = CHR 0xE2 \<and> y = CHR 0x81 \<and> x = CHR 0x9F)
               \<or> (a' = CHR 0xE3 \<and> y = CHR 0x80 \<and> x = CHR 0x80)
            then dropSpaceRev rest' else xs @ c # t)"
          unfolding xs xs' append_Cons rest
          by (rule dropSpaceRev_cons3 [OF nospace])
        show ?thesis
        proof (cases "y = CHR 0xC2 \<and> (x = CHR 0x85 \<or> x = CHR 0xA0)")
          case True
          have "dropSpaceRev (xs @ c # t) = dropSpaceRev (xs'' @ c # t)"
            using True by (simp add: step del: dropSpaceRev.simps)
          then show ?thesis
            using IH [of xs''] xs xs' by simp
        next
          case notwo: False
          show ?thesis
          proof (cases "(a' = CHR 0xE1 \<and> y = CHR 0x9A \<and> x = CHR 0x80)
               \<or> (a' = CHR 0xE2 \<and> y = CHR 0x80 \<and> thirdByteE280 x)
               \<or> (a' = CHR 0xE2 \<and> y = CHR 0x81 \<and> x = CHR 0x9F)
               \<or> (a' = CHR 0xE3 \<and> y = CHR 0x80 \<and> x = CHR 0x80)")
            case False
            have "dropSpaceRev (xs @ c # t) = xs @ c # t"
              by (simp only: step notwo False if_False)
            then show ?thesis
              by (rule whole)
          next
            case True
            have eq: "dropSpaceRev (xs @ c # t) = dropSpaceRev rest'"
              by (simp only: step notwo True if_False if_True)
            have "a' \<noteq> c"
              using True plain by auto
            then obtain xs''' where "xs'' = a' # xs'''" and "rest' = xs''' @ c # t"
              using rest by (cases xs'') auto
            then show ?thesis
              using IH [of xs'''] xs xs' eq by simp
          qed
        qed
      qed
    qed
  qed
qed

lemma strings_TrimSpace_minus_zero:
  assumes "basePrefixLetter c"
  shows "\<exists>rest'. strings_TrimSpace (CHR ''-'' # CHR ''0'' # c # rest) = CHR ''-'' # CHR ''0'' # c # rest'"
proof -
  obtain ys where "dropSpaceRev (rev rest @ c # [CHR ''0'', CHR ''-'']) = ys @ c # [CHR ''0'', CHR ''-'']"
    using dropSpaceRev_keeps [OF assms] by blast
  then have "strings_TrimSpace (CHR ''-'' # CHR ''0'' # c # rest) = CHR ''-'' # CHR ''0'' # c # rev ys"
    by (simp add: strings_TrimSpace_def dropSpace_minus del: dropSpace.simps dropSpaceRev.simps)
  then show ?thesis
    by blast
qed

lemma strconv_ParseInt_minus_zero:
  assumes "basePrefixLetter c"
  shows "strconv_ParseInt (CHR ''-'' # CHR ''0'' # c # r) 10 64
           = Inl (NumError ''ParseInt'' (CHR ''-'' # CHR ''0'' # c # r) ErrSyntax)"
  using assms unfolding basePrefixLetter_def
  by (elim disjE)
     (simp_all add: strconv_ParseInt_def strconv_ParseUint_def lower_def Let_def
        ErrSyntax_def ErrRange_def)

lemma parseIntegerLiteral_minus_zero:
  assumes c: "basePrefixLetter c"
  shows "\<exists>s. parseIntegerLiteral w (CHR ''-'' # CHR ''0'' # c # rest)
           = Inl (Errorf ''invalid integer literal '%s': %w'' [ArgS s]
                    (NumError ''ParseInt'' s ErrSyntax))"
proof -
  obtain rest' where s1: "strings_TrimSpace (CHR ''-'' # CHR ''0'' # c # rest)
      = CHR ''-'' # CHR ''0'' # c # rest'"
    using strings_TrimSpace_minus_zero [OF c] by blast
  define s1' where "s1' = CHR ''-'' # CHR ''0'' # c # rest'"
  define isLong where "isLong = (strings_HasSuffix s1' ''L'' \<or> strings_HasSuffix s1' ''l'')"
  define s where "s = (if isLong then take (length s1' - 1) s1' else s1')"
  have notL: "c \<noteq> CHR ''L''" "c \<noteq> CHR ''l''"
    using c by (auto simp: basePrefixLetter_def)
  have nonempty: "isLong \<Longrightarrow> rest' \<noteq> []"
    using notL by (auto simp: isLong_def s1'_def strings_HasSuffix_def)
  have "\<exists>r. s = CHR ''-'' # CHR ''0'' # c # r"
  proof (cases isLong)
    case False
    then show ?thesis
      by (simp add: s_def s1'_def)
  next
    case True
    then obtain ys y where "rest' = ys @ [y]"
      using nonempty by (cases rest' rule: rev_cases) auto
    then have "s = CHR ''-'' # CHR ''0'' # c # ys"
      using True by (simp add: s_def s1'_def)
    then show ?thesis
      by blast
  qed
  then obtain r where s: "s = CHR ''-'' # CHR ''0'' # c # r"
    by blast
  have noprefix: "\<not> strings_HasPrefix s pre" if "hd pre = CHR ''0''" "pre \<noteq> []" for pre
    using that by (cases pre) (auto simp: s strings_HasPrefix_def)
  have "parseIntegerLiteral w (CHR ''-'' # CHR ''0'' # c # rest)
          = Inl (Errorf ''invalid integer literal '%s': %w'' [ArgS s]
                    (NumError ''ParseInt'' s ErrSyntax))"
    unfolding parseIntegerLiteral_def s1 Let_def
    unfolding s1'_def [symmetric] isLong_def [symmetric] s_def [symmetric]
    by (simp add: noprefix) (simp add: s strconv_ParseInt_minus_zero [OF c])
  then show ?thesis
    by blast
qed

text \<open>
  C10. An integer token whose text is \<^verbatim>\<open>-0\<close>, a letter of a base prefix and anything
  after it is no integer for \<^verbatim>\<open>parseIntegerLiteral\<close>: the text does not begin with a
  prefix, it is read in base 10, and \<^verbatim>\<open>strconv.ParseInt\<close> rejects the letter. So
  \<^verbatim>\<open>parseValue\<close> fails on such a token with the invalid-integer error. The lexer makes
  one integer token of the sign and the number: the settings \<^verbatim>\<open>v = -0xFF;\<close>,
  \<^verbatim>\<open>v = -0b101;\<close> and \<^verbatim>\<open>v = -0o7;\<close> fail to parse with that error.
\<close>

theorem negative_base_prefixed_literal_rejected:
  "(basePrefixLetter c \<and> Token.Type (current p) = TokenInteger
      \<and> Token.Value (current p) = CHR ''-'' # CHR ''0'' # c # rest \<and> 0 < n
    \<longrightarrow> (\<exists>s. parseValue n env p =
          Some (Inl (Errorf ''invalid integer at line %d: %w'' [ArgD (Line (current p))]
            (Errorf ''invalid integer literal '%s': %w'' [ArgS s]
               (NumError ''ParseInt'' s ErrSyntax))))))
   \<and> map (\<lambda>t. (Token.Type t, Token.Value t)) (tokens (NewLexer (Some ''v = -0xFF;'')))
       = [(TokenIdentifier, ''v''), (TokenAssign, ''=''), (TokenInteger, ''-0xFF''),
          (TokenSemicolon, '';''), (TokenEOF, [])]
   \<and> ParseString 20 env ''v = -0xFF;'' =
       Some (Inl (Errorf ''invalid integer at line %d: %w'' [ArgD 1]
         (Errorf ''invalid integer literal '%s': %w'' [ArgS ''-0xFF'']
            (NumError ''ParseInt'' ''-0xFF'' ErrSyntax))))
   \<and> ParseString 20 env ''v = -0b101;'' =
       Some (Inl (Errorf ''invalid integer at line %d: %w'' [ArgD 1]
         (Errorf ''invalid integer literal '%s': %w'' [ArgS ''-0b101'']
            (NumError ''ParseInt'' ''-0b101'' ErrSyntax))))
   \<and> ParseString 20 env ''v = -0o7;'' =
       Some (Inl (Errorf ''invalid integer at line %d: %w'' [ArgD 1]
         (Errorf ''invalid integer literal '%s': %w'' [ArgS ''-0o7'']
            (NumError ''ParseInt'' ''-0o7'' ErrSyntax))))"
proof -
  have general: "\<exists>s. parseValue n env p =
          Some (Inl (Errorf ''invalid integer at line %d: %w'' [ArgD (Line (current p))]
            (Errorf ''invalid integer literal '%s': %w'' [ArgS s]
               (NumError ''ParseInt'' s ErrSyntax))))"
    if c: "basePrefixLetter c" and ty: "Token.Type (current p) = TokenInteger"
      and tv: "Token.Value (current p) = CHR ''-'' # CHR ''0'' # c # rest" and n: "0 < n"
  proof -
    obtain s where "parseIntegerLiteral (IntSize env) (CHR ''-'' # CHR ''0'' # c # rest)
           = Inl (Errorf ''invalid integer literal '%s': %w'' [ArgS s]
                    (NumError ''ParseInt'' s ErrSyntax))"
      using parseIntegerLiteral_minus_zero [OF c] by blast
    then show ?thesis
      using ty tv n by (subst parseValue_unfold) simp
  qed
  have toks: "map (\<lambda>t. (Token.Type t, Token.Value t)) (tokens (NewLexer (Some ''v = -0xFF;'')))
       = [(TokenIdentifier, ''v''), (TokenAssign, ''=''), (TokenInteger, ''-0xFF''),
          (TokenSemicolon, '';''), (TokenEOF, [])]"
    by (simp add: lexer_eval)
  have x: "ParseString 20 env ''v = -0xFF;'' =
       Some (Inl (Errorf ''invalid integer at line %d: %w'' [ArgD 1]
         (Errorf ''invalid integer literal '%s': %w'' [ArgS ''-0xFF'']
            (NumError ''ParseInt'' ''-0xFF'' ErrSyntax))))"
    by (simp add: lexer_eval parser_eval parseIntegerLiteral_eval)
  have b: "ParseString 20 env ''v = -0b101;'' =
       Some (Inl (Errorf ''invalid integer at line %d: %w'' [ArgD 1]
         (Errorf ''invalid integer literal '%s': %w'' [ArgS ''-0b101'']
            (NumError ''ParseInt'' ''-0b101'' ErrSyntax))))"
    by (simp add: lexer_eval parser_eval parseIntegerLiteral_eval)
  have o: "ParseString 20 env ''v = -0o7;'' =
       Some (Inl (Errorf ''invalid integer at line %d: %w'' [ArgD 1]
         (Errorf ''invalid integer literal '%s': %w'' [ArgS ''-0o7'']
            (NumError ''ParseInt'' ''-0o7'' ErrSyntax))))"
    by (simp add: lexer_eval parser_eval parseIntegerLiteral_eval)
  show ?thesis
    using general toks x b o by blast
qed

theorem negative_base_prefixed_literal_rejected_witness:
  "\<exists>s. parseValue 1 example_env (NewParser (NewLexer (Some ''-0XfL''))) =
     Some (Inl (Errorf ''invalid integer at line %d: %w'' [ArgD 1]
       (Errorf ''invalid integer literal '%s': %w'' [ArgS s]
          (NumError ''ParseInt'' s ErrSyntax))))"
proof -
  have cur: "current (NewParser (NewLexer (Some ''-0XfL'')))
      = \<lparr>Value = ''-0XfL'', Type = TokenInteger, Line = 1, Column = 1\<rparr>"
    by (simp add: lexer_eval parser_eval)
  have "basePrefixLetter CHR ''X''"
    by (simp add: basePrefixLetter_def)
  then show ?thesis
    using negative_base_prefixed_literal_rejected
      [where c = "CHR ''X''" and p = "NewParser (NewLexer (Some ''-0XfL''))" and n = 1
         and rest = "''fL''" and env = example_env]
    by (simp add: cur)
qed

subsection \<open>The depth of includes\<close>

text \<open>
  A file that holds one include directive and nothing else: its three tokens are the
  directive, the path and the end of the input. Parsed at a depth below 10, it parses the
  included file at the next depth and merges its settings; parsed at depth 10 or more, it
  fails with the depth error.
\<close>

lemma Parse_include_below_limit:
  assumes toks: "tokens lx = [ti, ts, te]" "tokenPos lx = 0"
    and types: "Token.Type ti = TokenInclude" "Token.Type ts = TokenString"
      "Token.Type te = TokenEOF"
    and depth: "d < 10"
    and dir: "dir \<noteq> []"
    and found: "Join env dir (Token.Value ts) = path" "Stat env path" "path \<noteq> []"
  shows "Parser_Parse (Suc (Suc (Suc n))) env ((NewParserWithBaseDir lx dir)\<lparr>includeDepth := d\<rparr>)
     = (case parseFileWithDepth n env path (d + 1) of
          None \<Rightarrow> None
        | Some (Inl err) \<Rightarrow>
            Some (Inl (Errorf ''error parsing included file '%s': %w'' [ArgS path] err))
        | Some (Inr includedConfig) \<Rightarrow>
            Some (Inr \<lparr>Root = mergeConfig (Root NewConfig) (Root includedConfig)\<rparr>))"
proof (cases "parseFileWithDepth n env path (d + 1)")
  case None
  then show ?thesis
    using assms
    by (simp add: Parser_Parse_unfold Parse_loop_unfold parseInclude_unfold
        NewParserWithBaseDir_def Parser_advance_def NextToken_def Token_zero_def
        skipSemicolon_def Let_def)
next
  case (Some r)
  show ?thesis
  proof (cases r)
    case (Inl err)
    then show ?thesis
      using assms Some
      by (simp add: Parser_Parse_unfold Parse_loop_unfold parseInclude_unfold
          NewParserWithBaseDir_def Parser_advance_def NextToken_def Token_zero_def
          skipSemicolon_def Let_def)
  next
    case (Inr includedConfig)
    then show ?thesis
      using assms Some
      by (simp add: Parser_Parse_unfold Parse_loop_unfold parseInclude_unfold
          NewParserWithBaseDir_def Parser_advance_def NextToken_def Token_zero_def
          skipSemicolon_def Let_def NewConfig_def)
  qed
qed

lemma Parse_include_at_limit:
  assumes toks: "tokens lx = ti # rest" "tokenPos lx = 0"
    and types: "Token.Type ti = TokenInclude"
    and depth: "10 \<le> d"
  shows "Parser_Parse (Suc (Suc (Suc n))) env ((NewParserWithBaseDir lx dir)\<lparr>includeDepth := d\<rparr>)
     = Some (Inl (Errorf ''include depth limit exceeded (10) at line %d: %w''
                    [ArgD (Line ti)] ErrIncludeDepthExceeded))"
  using assms
  by (simp add: Parser_Parse_unfold Parse_loop_unfold parseInclude_unfold
      NewParserWithBaseDir_def Parser_advance_def NextToken_def Token_zero_def)

text \<open>
  Twelve files in one directory, each of the first eleven with one include directive that
  names the next, the last with one setting. The environment below holds these files and
  no other; its \<^verbatim>\<open>Dir\<close> and \<^verbatim>\<open>Join\<close> are those of \<^verbatim>\<open>path/filepath\<close> on names
  without a separator, the only ones that occur here: the directory of such a name is
  \<^verbatim>\<open>.\<close>, and joining \<^verbatim>\<open>.\<close> with a name gives the name.
\<close>

definition chain_files :: "(string \<times> string) list" where
  \<open>chain_files =
     [(''a'', ''@include "b"''), (''b'', ''@include "c"''), (''c'', ''@include "d"''),
      (''d'', ''@include "e"''), (''e'', ''@include "f"''), (''f'', ''@include "g"''),
      (''g'', ''@include "h"''), (''h'', ''@include "i"''), (''i'', ''@include "j"''),
      (''j'', ''@include "k"''), (''k'', ''@include "l"''), (''l'', ''z=1;'')]\<close>

definition chain_env :: Env where
  "chain_env =
     \<lparr>IntSize = 64,
      ParseFloat = (\<lambda>s. Inl (NumError ''ParseFloat'' s ErrSyntax)),
      Stat = (\<lambda>path. map_of chain_files path \<noteq> None),
      Open = (\<lambda>path. case map_of chain_files path of
                        None \<Rightarrow> Inl (PathError ''open'' path)
                      | Some content \<Rightarrow> Inr (Some content)),
      Join = (\<lambda>dir path. if dir = ''.'' then path else dir @ ''/'' @ path),
      Dir = (\<lambda>path. ''.'')\<rparr>"

text \<open>The configuration with the one setting of the last file.\<close>

definition chain_config :: Config where
  "chain_config = \<lparr>Root = NewGroupValue (fmupd ''z'' (NewIntValue 1) fmempty)\<rparr>"

text \<open>An error of an included file, as \<^verbatim>\<open>parseInclude\<close> wraps it.\<close>

definition included_error :: "string \<Rightarrow> Error \<Rightarrow> Error" where
  "included_error path err = Errorf ''error parsing included file '%s': %w'' [ArgS path] err"

definition depth_error :: "int \<Rightarrow> Error" where
  "depth_error lineno =
     Errorf ''include depth limit exceeded (10) at line %d: %w'' [ArgD lineno]
       ErrIncludeDepthExceeded"


text \<open>The text of an include directive that names a file of one letter.\<close>

definition include_directive :: "char \<Rightarrow> string" where
  "include_directive y = ''@include '' @ [CHR 0x22, y, CHR 0x22]"

lemma chain_links:
  "(x, y) \<in> set (zip ''abcdefghijk'' ''bcdefghijkl'') \<Longrightarrow>
     Open chain_env [x] = Inr (Some (include_directive y))
       \<and> Stat chain_env [y] \<and> Join chain_env (Dir chain_env [x]) [y] = [y]
       \<and> Dir chain_env [x] \<noteq> []"
  unfolding zip.simps list.case list.set
  by (elim insertE emptyE; simp add: chain_env_def chain_files_def include_directive_def)

lemma chain_lexer:
  "y \<in> set ''bcdefghijkl'' \<Longrightarrow>
     NewLexer (Some (include_directive y)) =
       \<lparr>tokens = [\<lparr>Value = ''@include'', Type = TokenInclude, Line = 1, Column = 1\<rparr>,
                  \<lparr>Value = [y], Type = TokenString, Line = 1, Column = 9\<rparr>,
                  \<lparr>Value = [], Type = TokenEOF, Line = 1, Column = 12\<rparr>],
        input = include_directive y, pos = 11, line = 1, column = 12,
        tokenPos = 0, current = CHR 0x00\<rparr>"
  unfolding list.set by (elim insertE emptyE; hypsubst; simp add: include_directive_def lexer_eval)

lemma chain_open:
  assumes link: "(x, y) \<in> set (zip ''abcdefghijk'' ''bcdefghijkl'')"
  shows "parseFileWithDepth (n + 4) chain_env [x] d =
     Parser_Parse (Suc (Suc (Suc n))) chain_env
       ((NewParserWithBaseDir (NewLexer (Some (include_directive y)))
           (Dir chain_env [x]))\<lparr>includeDepth := d\<rparr>)"
proof -
  have fuel: "n + 4 = Suc (Suc (Suc (Suc n)))"
    by simp
  show ?thesis
    unfolding fuel by (subst parseFileWithDepth_unfold) (simp add: chain_links [OF link])
qed

lemma chain_include_below_limit:
  assumes link: "(x, y) \<in> set (zip ''abcdefghijk'' ''bcdefghijkl'')" and depth: "d < 10"
  shows "parseFileWithDepth (n + 4) chain_env [x] d =
     (case parseFileWithDepth n chain_env [y] (d + 1) of
        None \<Rightarrow> None
      | Some (Inl err) \<Rightarrow> Some (Inl (included_error [y] err))
      | Some (Inr includedConfig) \<Rightarrow>
          Some (Inr \<lparr>Root = mergeConfig (Root NewConfig) (Root includedConfig)\<rparr>))"
proof -
  have y: "y \<in> set ''bcdefghijkl''"
    using link by (rule set_zip_rightD)
  note links = chain_links [OF link]
  show ?thesis
    unfolding chain_open [OF link] included_error_def
    by (rule Parse_include_below_limit
          [where ti = "\<lparr>Value = ''@include'', Type = TokenInclude, Line = 1, Column = 1\<rparr>"
             and ts = "\<lparr>Value = [y], Type = TokenString, Line = 1, Column = 9\<rparr>"
             and te = "\<lparr>Value = [], Type = TokenEOF, Line = 1, Column = 12\<rparr>"])
       (simp_all add: chain_lexer [OF y] links depth)
qed

lemma chain_include_at_limit:
  assumes link: "(x, y) \<in> set (zip ''abcdefghijk'' ''bcdefghijkl'')" and depth: "10 \<le> d"
  shows "parseFileWithDepth (n + 4) chain_env [x] d = Some (Inl (depth_error 1))"
proof -
  have y: "y \<in> set ''bcdefghijkl''"
    using link by (rule set_zip_rightD)
  show ?thesis
    unfolding chain_open [OF link] depth_error_def
    using depth Parse_include_at_limit
      [where lx = "NewLexer (Some (include_directive y))" and d = d and n = n
         and env = chain_env and dir = "Dir chain_env [x]"
         and ti = "\<lparr>Value = ''@include'', Type = TokenInclude, Line = 1, Column = 1\<rparr>"
         and rest = "[\<lparr>Value = [y], Type = TokenString, Line = 1, Column = 9\<rparr>,
                      \<lparr>Value = [], Type = TokenEOF, Line = 1, Column = 12\<rparr>]"]
    by (simp add: chain_lexer [OF y])
qed

lemma chain_last: "parseFileWithDepth (n + 5) chain_env ''l'' d = Some (Inr chain_config)"
  by (simp add: lexer_eval parser_eval parseIntegerLiteral_eval chain_env_def chain_files_def
      chain_config_def NewGroupValue_def NewIntValue_def)

lemma chain_include_succeeds:
  assumes "(x, y) \<in> set (zip ''abcdefghijk'' ''bcdefghijkl'')" and "d < 10"
    and "parseFileWithDepth n chain_env [y] (d + 1) = Some (Inr chain_config)"
  shows "parseFileWithDepth (n + 4) chain_env [x] d = Some (Inr chain_config)"
  using chain_include_below_limit [OF assms(1,2), of n] assms(3)
  by (simp add: mergeConfig_def NewConfig_def chain_config_def NewGroupValue_def
      Value_GroupVal_update_def)

lemma chain_include_fails:
  assumes "(x, y) \<in> set (zip ''abcdefghijk'' ''bcdefghijkl'')" and "d < 10"
    and "parseFileWithDepth n chain_env [y] (d + 1) = Some (Inl err)"
  shows "parseFileWithDepth (n + 4) chain_env [x] d = Some (Inl (included_error [y] err))"
  using chain_include_below_limit [OF assms(1,2), of n] assms(3)
  by simp

lemma includeDepth_advance: "includeDepth (Parser_advance p) = includeDepth p"
  by (simp add: Parser_advance_def split: prod.splits)

lemma includeDepth_skipSemicolon: "includeDepth (skipSemicolon p) = includeDepth p"
  by (simp add: skipSemicolon_def includeDepth_advance)

lemma parseInclude_included:
  assumes "parseInclude n env target p = Some (Inr r)"
  shows "includeDepth p < 10 \<and> (\<exists>path config.
           parseFileWithDepth (n - 1) env path (includeDepth p + 1) = Some (Inr config)
           \<and> fst r = mergeConfig target (Root config))"
  using assms
  by (subst (asm) parseInclude_unfold)
     (auto simp: Let_def includeDepth_advance includeDepth_skipSemicolon
        split: if_splits option.splits sum.splits; blast)

lemma ParseFile_depth: "ParseFile n env filename = parseFileWithDepth (Suc n) env filename 0"
  by (subst parseFileWithDepth_unfold)
     (simp add: ParseFile_def NewParserWithBaseDir_def Parser_advance_def
        split: sum.splits prod.splits)

text \<open>
  C4. The ceiling of the include depth is the constant 10 of \<^verbatim>\<open>parseInclude\<close>.
  \<^verbatim>\<open>ParseFile\<close> parses the root file at depth 0, and the parser of \<^verbatim>\<open>Parse\<close> has depth 0
  too. An include directive met at depth 10 or more fails with the depth error, whatever
  follows it. An include that succeeds was met at a depth below 10 and has parsed its file
  with \<^verbatim>\<open>parseFileWithDepth\<close> at that depth plus one, and \<^verbatim>\<open>parseFileWithDepth\<close> parses the
  file with a parser of the depth it is given. So, with the twelve files of
  \<^term>\<open>chain_files\<close>, each including the next: parsing the first one fails with the depth
  error, wrapped once by each of the ten includes above the one that failed; parsing the
  second one, a chain of eleven files, succeeds, and so does parsing the fourth one, a
  chain of nine files. These three hold for every fuel from 44 on.
\<close>

theorem include_depth_limit:
  "ParseFile n env filename = parseFileWithDepth (Suc n) env filename 0
   \<and> includeDepth (NewParser lx) = 0
   \<and> (0 < n \<and> 10 \<le> includeDepth p \<longrightarrow>
        parseInclude n env target p = Some (Inl (depth_error (Line (current p)))))
   \<and> (parseInclude n env target p' = Some (Inr r) \<longrightarrow>
        includeDepth p' < 10
        \<and> (\<exists>path config.
              parseFileWithDepth (n - 1) env path (includeDepth p' + 1) = Some (Inr config)
              \<and> fst r = mergeConfig target (Root config)))
   \<and> parseFileWithDepth (Suc n) env filename depth =
       (case Open env filename of
          Inl err \<Rightarrow> Some (Inl (Errorf ''failed to open file: %w'' [] err))
        | Inr reader \<Rightarrow>
            Parser_Parse n env
              ((NewParserWithBaseDir (NewLexer reader) (Dir env filename))
                 \<lparr>includeDepth := depth\<rparr>))
   \<and> ParseFile (n + 44) chain_env ''a'' =
       Some (Inl (foldr included_error
                    [''b'', ''c'', ''d'', ''e'', ''f'', ''g'', ''h'', ''i'', ''j'', ''k'']
                    (depth_error 1)))
   \<and> errors_Is (foldr included_error
                  [''b'', ''c'', ''d'', ''e'', ''f'', ''g'', ''h'', ''i'', ''j'', ''k'']
                  (depth_error 1)) ErrIncludeDepthExceeded
   \<and> ParseFile (n + 44) chain_env ''b'' = Some (Inr chain_config)
   \<and> ParseFile (n + 44) chain_env ''d'' = Some (Inr chain_config)"
proof -
  have root: "includeDepth (NewParser lx) = 0"
    by (simp add: NewParser_def includeDepth_advance)
  have limit: "0 < n \<and> 10 \<le> includeDepth p \<longrightarrow>
        parseInclude n env target p = Some (Inl (depth_error (Line (current p))))"
    by (subst parseInclude_unfold) (simp add: depth_error_def)
  have nested: "parseInclude n env target p' = Some (Inr r) \<longrightarrow>
        includeDepth p' < 10
        \<and> (\<exists>path config.
              parseFileWithDepth (n - 1) env path (includeDepth p' + 1) = Some (Inr config)
              \<and> fst r = mergeConfig target (Root config))"
    using parseInclude_included by blast
  have parsed: "parseFileWithDepth (Suc n) env filename depth =
       (case Open env filename of
          Inl err \<Rightarrow> Some (Inl (Errorf ''failed to open file: %w'' [] err))
        | Inr reader \<Rightarrow>
            Parser_Parse n env
              ((NewParserWithBaseDir (NewLexer reader) (Dir env filename))
                 \<lparr>includeDepth := depth\<rparr>))"
    by (subst parseFileWithDepth_unfold) (simp split: sum.splits)
  have fail_k: "parseFileWithDepth (m + 4) chain_env ''k'' 10 = Some (Inl (depth_error 1))"
    for m
    using chain_include_at_limit [where x = "CHR ''k''" and y = "CHR ''l''" and d = 10 and n = m]
    by simp
  have fail_j: "parseFileWithDepth (m + 8) chain_env ''j'' 9 =
      Some (Inl (included_error ''k'' (depth_error 1)))"
    for m
    using fail_k [where m = m]
      chain_include_fails [where x = "CHR ''j''" and y = "CHR ''k''" and d = 9
        and n = "m + 4" and err = "depth_error 1"]
    by (simp add: add.commute)
  have fail_i: "parseFileWithDepth (m + 12) chain_env ''i'' 8 =
      Some (Inl (included_error ''j'' (included_error ''k'' (depth_error 1))))"
    for m
    using fail_j [where m = m]
      chain_include_fails [where x = "CHR ''i''" and y = "CHR ''j''" and d = 8
        and n = "m + 8" and err = "included_error ''k'' (depth_error 1)"]
    by (simp add: add.commute)
  have fail_h: "parseFileWithDepth (m + 16) chain_env ''h'' 7 =
      Some (Inl (included_error ''i'' (included_error ''j'' (included_error ''k'' (depth_error 1)))))"
    for m
    using fail_i [where m = m]
      chain_include_fails [where x = "CHR ''h''" and y = "CHR ''i''" and d = 7
        and n = "m + 12" and err = "included_error ''j'' (included_error ''k'' (depth_error 1))"]
    by (simp add: add.commute)
  have fail_g: "parseFileWithDepth (m + 20) chain_env ''g'' 6 =
      Some (Inl (included_error ''h'' (included_error ''i'' (included_error ''j'' (included_error ''k'' (depth_error 1))))))"
    for m
    using fail_h [where m = m]
      chain_include_fails [where x = "CHR ''g''" and y = "CHR ''h''" and d = 6
        and n = "m + 16" and err = "included_error ''i'' (included_error ''j'' (included_error ''k'' (depth_error 1)))"]
    by (simp add: add.commute)
  have fail_f: "parseFileWithDepth (m + 24) chain_env ''f'' 5 =
      Some (Inl (included_error ''g'' (included_error ''h'' (included_error ''i'' (included_error ''j'' (included_error ''k'' (depth_error 1)))))))"
    for m
    using fail_g [where m = m]
      chain_include_fails [where x = "CHR ''f''" and y = "CHR ''g''" and d = 5
        and n = "m + 20" and err = "included_error ''h'' (included_error ''i'' (included_error ''j'' (included_error ''k'' (depth_error 1))))"]
    by (simp add: add.commute)
  have fail_e: "parseFileWithDepth (m + 28) chain_env ''e'' 4 =
      Some (Inl (included_error ''f'' (included_error ''g'' (included_error ''h'' (included_error ''i'' (included_error ''j'' (included_error ''k'' (depth_error 1))))))))"
    for m
    using fail_f [where m = m]
      chain_include_fails [where x = "CHR ''e''" and y = "CHR ''f''" and d = 4
        and n = "m + 24" and err = "included_error ''g'' (included_error ''h'' (included_error ''i'' (included_error ''j'' (included_error ''k'' (depth_error 1)))))"]
    by (simp add: add.commute)
  have fail_d: "parseFileWithDepth (m + 32) chain_env ''d'' 3 =
      Some (Inl (included_error ''e'' (included_error ''f'' (included_error ''g'' (included_error ''h'' (included_error ''i'' (included_error ''j'' (included_error ''k'' (depth_error 1)))))))))"
    for m
    using fail_e [where m = m]
      chain_include_fails [where x = "CHR ''d''" and y = "CHR ''e''" and d = 3
        and n = "m + 28" and err = "included_error ''f'' (included_error ''g'' (included_error ''h'' (included_error ''i'' (included_error ''j'' (included_error ''k'' (depth_error 1))))))"]
    by (simp add: add.commute)
  have fail_c: "parseFileWithDepth (m + 36) chain_env ''c'' 2 =
      Some (Inl (included_error ''d'' (included_error ''e'' (included_error ''f'' (included_error ''g'' (included_error ''h'' (included_error ''i'' (included_error ''j'' (included_error ''k'' (depth_error 1))))))))))"
    for m
    using fail_d [where m = m]
      chain_include_fails [where x = "CHR ''c''" and y = "CHR ''d''" and d = 2
        and n = "m + 32" and err = "included_error ''e'' (included_error ''f'' (included_error ''g'' (included_error ''h'' (included_error ''i'' (included_error ''j'' (included_error ''k'' (depth_error 1)))))))"]
    by (simp add: add.commute)
  have fail_b: "parseFileWithDepth (m + 40) chain_env ''b'' 1 =
      Some (Inl (included_error ''c'' (included_error ''d'' (included_error ''e'' (included_error ''f'' (included_error ''g'' (included_error ''h'' (included_error ''i'' (included_error ''j'' (included_error ''k'' (depth_error 1)))))))))))"
    for m
    using fail_c [where m = m]
      chain_include_fails [where x = "CHR ''b''" and y = "CHR ''c''" and d = 1
        and n = "m + 36" and err = "included_error ''d'' (included_error ''e'' (included_error ''f'' (included_error ''g'' (included_error ''h'' (included_error ''i'' (included_error ''j'' (included_error ''k'' (depth_error 1))))))))"]
    by (simp add: add.commute)
  have fail_a: "parseFileWithDepth (m + 44) chain_env ''a'' 0 =
      Some (Inl (included_error ''b'' (included_error ''c'' (included_error ''d'' (included_error ''e'' (included_error ''f'' (included_error ''g'' (included_error ''h'' (included_error ''i'' (included_error ''j'' (included_error ''k'' (depth_error 1))))))))))))"
    for m
    using fail_b [where m = m]
      chain_include_fails [where x = "CHR ''a''" and y = "CHR ''b''" and d = 0
        and n = "m + 40" and err = "included_error ''c'' (included_error ''d'' (included_error ''e'' (included_error ''f'' (included_error ''g'' (included_error ''h'' (included_error ''i'' (included_error ''j'' (included_error ''k'' (depth_error 1)))))))))"]
    by (simp add: add.commute)
  have pass_l: "parseFileWithDepth (m + 5) chain_env ''l'' d = Some (Inr chain_config)"
    for m d
    by (rule chain_last)
  have pass_k: "parseFileWithDepth (m + 9) chain_env ''k'' d = Some (Inr chain_config)"
    if "d < 10" for m d
    using that pass_l [where m = m and d = "d + 1"]
      chain_include_succeeds [where x = "CHR ''k''" and y = "CHR ''l''" and d = d
        and n = "m + 5"]
    by (simp add: add.commute)
  have pass_j: "parseFileWithDepth (m + 13) chain_env ''j'' d = Some (Inr chain_config)"
    if "d < 9" for m d
    using that pass_k [where m = m and d = "d + 1"]
      chain_include_succeeds [where x = "CHR ''j''" and y = "CHR ''k''" and d = d
        and n = "m + 9"]
    by (simp add: add.commute)
  have pass_i: "parseFileWithDepth (m + 17) chain_env ''i'' d = Some (Inr chain_config)"
    if "d < 8" for m d
    using that pass_j [where m = m and d = "d + 1"]
      chain_include_succeeds [where x = "CHR ''i''" and y = "CHR ''j''" and d = d
        and n = "m + 13"]
    by (simp add: add.commute)
  have pass_h: "parseFileWithDepth (m + 21) chain_env ''h'' d = Some (Inr chain_config)"
    if "d < 7" for m d
    using that pass_i [where m = m and d = "d + 1"]
      chain_include_succeeds [where x = "CHR ''h''" and y = "CHR ''i''" and d = d
        and n = "m + 17"]
    by (simp add: add.commute)
  have pass_g: "parseFileWithDepth (m + 25) chain_env ''g'' d = Some (Inr chain_config)"
    if "d < 6" for m d
    using that pass_h [where m = m and d = "d + 1"]
      chain_include_succeeds [where x = "CHR ''g''" and y = "CHR ''h''" and d = d
        and n = "m + 21"]
    by (simp add: add.commute)
  have pass_f: "parseFileWithDepth (m + 29) chain_env ''f'' d = Some (Inr chain_config)"
    if "d < 5" for m d
    using that pass_g [where m = m and d = "d + 1"]
      chain_include_succeeds [where x = "CHR ''f''" and y = "CHR ''g''" and d = d
        and n = "m + 25"]
    by (simp add: add.commute)
  have pass_e: "parseFileWithDepth (m + 33) chain_env ''e'' d = Some (Inr chain_config)"
    if "d < 4" for m d
    using that pass_f [where m = m and d = "d + 1"]
      chain_include_succeeds [where x = "CHR ''e''" and y = "CHR ''f''" and d = d
        and n = "m + 29"]
    by (simp add: add.commute)
  have pass_d: "parseFileWithDepth (m + 37) chain_env ''d'' d = Some (Inr chain_config)"
    if "d < 3" for m d
    using that pass_e [where m = m and d = "d + 1"]
      chain_include_succeeds [where x = "CHR ''d''" and y = "CHR ''e''" and d = d
        and n = "m + 33"]
    by (simp add: add.commute)
  have pass_c: "parseFileWithDepth (m + 41) chain_env ''c'' d = Some (Inr chain_config)"
    if "d < 2" for m d
    using that pass_d [where m = m and d = "d + 1"]
      chain_include_succeeds [where x = "CHR ''c''" and y = "CHR ''d''" and d = d
        and n = "m + 37"]
    by (simp add: add.commute)
  have pass_b: "parseFileWithDepth (m + 45) chain_env ''b'' d = Some (Inr chain_config)"
    if "d < 1" for m d
    using that pass_c [where m = m and d = "d + 1"]
      chain_include_succeeds [where x = "CHR ''b''" and y = "CHR ''c''" and d = d
        and n = "m + 41"]
    by (simp add: add.commute)
  have twelve: "ParseFile (n + 44) chain_env ''a'' =
       Some (Inl (foldr included_error
                    [''b'', ''c'', ''d'', ''e'', ''f'', ''g'', ''h'', ''i'', ''j'', ''k'']
                    (depth_error 1)))"
    using fail_a [where m = "n + 1"] by (simp add: ParseFile_depth add.commute)
  have is_depth: "errors_Is (foldr included_error
                  [''b'', ''c'', ''d'', ''e'', ''f'', ''g'', ''h'', ''i'', ''j'', ''k'']
                  (depth_error 1)) ErrIncludeDepthExceeded"
    by (simp add: included_error_def depth_error_def ErrIncludeDepthExceeded_def)
  have eleven: "ParseFile (n + 44) chain_env ''b'' = Some (Inr chain_config)"
    using pass_b [where m = n and d = 0] by (simp add: ParseFile_depth add.commute)
  have nine: "ParseFile (n + 44) chain_env ''d'' = Some (Inr chain_config)"
    using pass_d [where m = "n + 8" and d = 0] by (simp add: ParseFile_depth add.commute)
  show ?thesis
    using ParseFile_depth [of n env filename] root limit nested parsed twelve is_depth eleven nine
    by blast
qed

theorem include_depth_limit_witness:
  "parseInclude 1 chain_env (Root NewConfig)
       ((NewParser (NewLexer (Some (include_directive CHR ''l''))))\<lparr>includeDepth := 10\<rparr>)
     = Some (Inl (depth_error 1))
   \<and> (\<exists>path config. parseFileWithDepth 5 chain_env path 1 = Some (Inr config)
         \<and> Root chain_config = mergeConfig (Root NewConfig) (Root config))"
proof -
  have lx: "NewLexer (Some (include_directive CHR ''l'')) =
       \<lparr>tokens = [\<lparr>Value = ''@include'', Type = TokenInclude, Line = 1, Column = 1\<rparr>,
                  \<lparr>Value = ''l'', Type = TokenString, Line = 1, Column = 9\<rparr>,
                  \<lparr>Value = [], Type = TokenEOF, Line = 1, Column = 12\<rparr>],
        input = include_directive CHR ''l'', pos = 11, line = 1, column = 12,
        tokenPos = 0, current = CHR 0x00\<rparr>"
    by (rule chain_lexer) simp
  have last: "parseFileWithDepth 5 chain_env ''l'' 1 = Some (Inr chain_config)"
    using chain_last [of 0 1] by simp
  have merged: "mergeConfig (Root NewConfig) (Root chain_config) = Root chain_config"
    by (simp add: mergeConfig_def NewConfig_def chain_config_def NewGroupValue_def
        Value_GroupVal_update_def)
  have exists: "Stat chain_env ''l''"
    by (simp add: chain_env_def chain_files_def)
  have included: "parseInclude 6 chain_env (Root NewConfig)
        (NewParser (NewLexer (Some (include_directive CHR ''l''))))
      = Some (Inr (Root chain_config,
           skipSemicolon (Parser_advance (Parser_advance
             (NewParser (NewLexer (Some (include_directive CHR ''l''))))))))"
    by (subst parseInclude_unfold)
       (simp add: lx last merged exists NewParser_def Parser_advance_def NextToken_def
          Token_zero_def skipSemicolon_def)
  have at_limit: "parseInclude 1 chain_env (Root NewConfig)
       ((NewParser (NewLexer (Some (include_directive CHR ''l''))))\<lparr>includeDepth := 10\<rparr>)
     = Some (Inl (depth_error 1))"
    using include_depth_limit [where n = 1 and env = chain_env and target = "Root NewConfig"
        and p = "(NewParser (NewLexer (Some (include_directive CHR ''l''))))
                   \<lparr>includeDepth := 10\<rparr>"]
    by (simp add: lx NewParser_def Parser_advance_def NextToken_def Token_zero_def)
  have "\<exists>path config. parseFileWithDepth 5 chain_env path 1 = Some (Inr config)
         \<and> Root chain_config = mergeConfig (Root NewConfig) (Root config)"
    using included include_depth_limit [where n = 6 and env = chain_env
        and target = "Root NewConfig"
        and p' = "NewParser (NewLexer (Some (include_directive CHR ''l'')))"
        and r = "(Root chain_config,
           skipSemicolon (Parser_advance (Parser_advance
             (NewParser (NewLexer (Some (include_directive CHR ''l'')))))))"]
    by (simp add: NewParser_def includeDepth_advance)
  with at_limit show ?thesis
    by simp
qed

end
